theory Spec2Isabelle
  imports Main "HOL-Library.Signed_Division" "HOL-Library.AList" "HOL-Library.Multiset"
begin

section \<open>Order checkout of the EC backend (main.go)\<close>

text \<open>
  The development follows the latest snapshot of \<^verbatim>\<open>main.go\<close> (the one with member ranks,
  points and the payment gateway): \<^verbatim>\<open>getProductStock\<close>, \<^verbatim>\<open>allocateStock\<close>,
  \<^verbatim>\<open>calculateCouponDiscount\<close>, \<^verbatim>\<open>getRankDiscountRate\<close>, \<^verbatim>\<open>addPoints\<close>, \<^verbatim>\<open>usePoints\<close>,
  \<^verbatim>\<open>rollbackPoints\<close>, \<^verbatim>\<open>updateUserPurchaseAmountAndRank\<close> and \<^verbatim>\<open>createOrderHandler\<close>.

  Conventions.
  \<^item> Go's \<^verbatim>\<open>int\<close> has 64 bits on the platforms the server is built for. A value of it is
    an \<^typ>\<open>int\<close> between \<open>- 2 ^ 63\<close> and \<open>2 ^ 63 - 1\<close>. In the charge path (the subtotal of
    the validation loop, the coupon discount and the charge computation) every \<^verbatim>\<open>+\<close>,
    \<^verbatim>\<open>-\<close> and \<^verbatim>\<open>*\<close> is the 64-bit operation, which wraps around: \<open>add64\<close>, \<open>sub64\<close>,
    \<open>mul64\<close>. Go's integer \<^verbatim>\<open>/\<close> truncates towards zero: it is \<open>sdiv\<close> (the divisors are
    the constants 10 and 100, so the quotient is in range). The counters of stock, points
    and identifiers are added and subtracted as integers: the theorems about them are
    about runs in which these counters stay within 64 bits.
  \<^item> The one floating-point computation of the charge path,
    \<^verbatim>\<open>int(float64(subtotal) * rankDiscountRate)\<close>, is modelled by IEEE-754 binary64 values
    written as (mantissa, exponent) pairs, with round-to-nearest-even.
  \<^item> A Go map is a partial function. A \<^verbatim>\<open>range\<close> over a map visits the keys in an order
    that Go leaves unspecified and that may change from one loop to the next; every loop
    over the stock map takes the order of its visit as an argument (a list of keys).
  \<^item> The handler runs alone: the locks and the interleaving of other requests are not
    modelled. Wall-clock fields (\<^verbatim>\<open>CreatedAt\<close>) are left out.
\<close>

subsection \<open>Entities\<close>

text \<open>
  The structs of the source, field by field. Where two structs have a field of the same
  name, the field carries the name of its struct as a prefix (\<open>prod_ID\<close>, \<open>wh_ID\<close>,
  \<open>user_ID\<close>, \<open>order_ID\<close>, \<open>item_Quantity\<close>, \<open>hist_Amount\<close> and so on).
\<close>

record Product =
  prod_ID :: int
  prod_Name :: string
  Price :: int
  Category :: string

record Warehouse =
  wh_ID :: int
  wh_Name :: string

record Stock =
  ProductID :: int
  WarehouseID :: int
  Quantity :: int

record StockWarehouse =
  WarehouseName :: string
  sw_Quantity :: int

record User =
  user_ID :: int
  Username :: string
  PasswordHash :: string
  IsAdmin :: bool
  Token :: string
  CurrentPoints :: int
  TotalSpentAmount :: int
  MemberRank :: string

record OrderItem =
  item_ProductID :: int
  item_Quantity :: int

record Order =
  order_ID :: int
  order_UserID :: int
  Items :: "OrderItem list"
  TotalPrice :: int
  ShippingFee :: int
  DiscountAmount :: int
  AppliedCoupon :: string
  Status :: string
  EarnedPoints :: int
  UsedPoints :: int
  RankDiscount :: int

record Coupon =
  Code :: string
  coupon_Type :: string
  Amount :: int
  Description :: string

record PointHistory =
  hist_ID :: int
  hist_UserID :: int
  hist_OrderID :: int
  hist_Type :: string
  hist_Amount :: int
  Balance :: int

record PaymentResult =
  Success :: bool
  TransactionID :: string
  Message :: string

text \<open>The package-level variables the checkout reads or writes.\<close>

record Store =
  products :: "int \<rightharpoonup> Product"
  warehouses :: "int \<rightharpoonup> Warehouse"
  stocks :: "string \<rightharpoonup> Stock"
  users :: "int \<rightharpoonup> User"
  orders :: "int \<rightharpoonup> Order"
  coupons :: "string \<rightharpoonup> Coupon"
  pointHistories :: "int \<rightharpoonup> PointHistory"
  nextOrderID :: int
  nextPointHistoryID :: int

subsection \<open>Stock keys: \<^verbatim>\<open>fmt.Sprintf("%d-%d", productID, warehouseID)\<close>\<close>

definition digit_char :: "nat \<Rightarrow> char" where
  "digit_char d = ''0123456789'' ! d"

fun fmt_nat :: "nat \<Rightarrow> string" where
  "fmt_nat n = (if n < 10 then [digit_char n] else fmt_nat (n div 10) @ [digit_char (n mod 10)])"

declare fmt_nat.simps [simp del]

definition fmt_d :: "int \<Rightarrow> string" where
  "fmt_d i = (if i < 0 then CHR ''-'' # fmt_nat (nat (- i)) else fmt_nat (nat i))"

definition stockKey :: "int \<Rightarrow> int \<Rightarrow> string" where
  "stockKey productID warehouseID = fmt_d productID @ ''-'' @ fmt_d warehouseID"

subsection \<open>binary64 arithmetic of the rank discount\<close>

text \<open>
  A finite binary64 value is written \<open>(m, e)\<close> for \<open>m * 2 ^ e\<close>. \<open>round53\<close> rounds such a
  value to 53 significant bits, to nearest and ties to even, as every binary64 operation
  does. The exponent range is not limited: the values of the rank discount are zero or
  lie between \<open>2 ^ -6\<close> and \<open>2 ^ 64\<close>.
\<close>

type_synonym float64 = "int \<times> int"

fun bit_length :: "nat \<Rightarrow> nat" where
  "bit_length n = (if n = 0 then 0 else Suc (bit_length (n div 2)))"

declare bit_length.simps [simp del]

definition round53 :: "float64 \<Rightarrow> float64" where
  "round53 x = (case x of (m, e) \<Rightarrow>
     if \<bar>m\<bar> < 2 ^ 53 then (m, e)
     else
       let b = bit_length (nat \<bar>m\<bar>) - 53;
           q = \<bar>m\<bar> div 2 ^ b;
           r = \<bar>m\<bar> mod 2 ^ b;
           h = 2 ^ (b - 1);
           q' = (if h < r \<or> (r = h \<and> odd q) then q + 1 else q)
       in (sgn m * q', e + int b))"

definition float64_of_int :: "int \<Rightarrow> float64" where
  \<comment> \<open>the conversion \<^verbatim>\<open>float64(n)\<close>\<close>
  "float64_of_int n = round53 (n, 0)"

definition fmul :: "float64 \<Rightarrow> float64 \<Rightarrow> float64" where
  \<comment> \<open>\<^verbatim>\<open>x * y\<close> on float64: the exact product, rounded\<close>
  "fmul x y = round53 (fst x * fst y, snd x + snd y)"

definition int_of_float64 :: "float64 \<Rightarrow> int" where
  \<comment> \<open>the conversion \<^verbatim>\<open>int(x)\<close>: the fraction is discarded (truncation towards zero)\<close>
  "int_of_float64 x = (case x of (m, e) \<Rightarrow>
     if 0 \<le> e then m * 2 ^ nat e else sgn m * (\<bar>m\<bar> div 2 ^ nat (- e)))"

text \<open>
  The constants \<^verbatim>\<open>0.05\<close>, \<^verbatim>\<open>0.03\<close> and \<^verbatim>\<open>0.0\<close> as binary64 values:
  \<^verbatim>\<open>0x1.999999999999ap-5\<close>, \<^verbatim>\<open>0x1.eb851eb851eb8p-6\<close> and zero.
\<close>

definition getRankDiscountRate :: "string \<Rightarrow> float64" where
  "getRankDiscountRate rank =
    (if rank = ''Gold'' then (7205759403792794, - 57)
     else if rank = ''Silver'' then (8646911284551352, - 58)
     else (0, 0))"

definition calculateMemberRank :: "int \<Rightarrow> string" where
  "calculateMemberRank totalSpent =
    (if totalSpent \<ge> 100000 then ''Gold''
     else if totalSpent \<ge> 50000 then ''Silver''
     else ''Normal'')"

subsection \<open>64-bit integer arithmetic\<close>

text \<open>
  \<open>wrap64 x\<close> is the value of the 64-bit two's complement integer that holds the low 64
  bits of \<open>x\<close>: the result of a Go \<^verbatim>\<open>int\<close> operation whose exact result is \<open>x\<close>.
\<close>

definition wrap64 :: "int \<Rightarrow> int" where
  "wrap64 x = (x + 2 ^ 63) mod 2 ^ 64 - 2 ^ 63"

definition add64 :: "int \<Rightarrow> int \<Rightarrow> int" where
  "add64 a b = wrap64 (a + b)"

definition sub64 :: "int \<Rightarrow> int \<Rightarrow> int" where
  "sub64 a b = wrap64 (a - b)"

definition mul64 :: "int \<Rightarrow> int \<Rightarrow> int" where
  "mul64 a b = wrap64 (a * b)"

subsection \<open>Coupon discount\<close>

definition calculateCouponDiscount :: "Coupon option \<Rightarrow> int \<Rightarrow> int" where
  "calculateCouponDiscount coupon baseAmount =
    (case coupon of
       None \<Rightarrow> 0
     | Some c \<Rightarrow>
         if coupon_Type c = ''fixed'' then
           (let discount = Amount c in if discount > baseAmount then baseAmount else discount)
         else if coupon_Type c = ''percentage'' then
           (let discount = (mul64 baseAmount (Amount c)) sdiv 100
            in if discount > baseAmount then baseAmount else discount)
         else 0)"

subsection \<open>The charge computation of \<^verbatim>\<open>createOrderHandler\<close>\<close>

text \<open>
  The local variables of the handler between the validation loop and the payment call,
  named as in the source. \<open>computeCharge\<close> is that block of the handler, as a function of
  the values it reads: the rank of the user, the coupon, the subtotal and
  \<^verbatim>\<open>req.UsePoints\<close>.
\<close>

record Charge =
  rankDiscountAmount :: int
  discountedSubtotal :: int
  tax :: int
  subtotalWithTax :: int
  shippingFee :: int
  couponDiscountAmount :: int
  afterCouponAmount :: int
  afterPointsAmount :: int
  totalPrice :: int
  earnedPoints :: int

definition computeCharge :: "string \<Rightarrow> Coupon option \<Rightarrow> int \<Rightarrow> int \<Rightarrow> Charge" where
  "computeCharge currentUserRank appliedCoupon subtotal usePts =
    (let rankDiscountRate = getRankDiscountRate currentUserRank;
         rankDiscountAmount = int_of_float64 (fmul (float64_of_int subtotal) rankDiscountRate);
         discountedSubtotal = sub64 subtotal rankDiscountAmount;
         tax = discountedSubtotal sdiv 10;
         subtotalWithTax = add64 discountedSubtotal tax;
         shippingFee = (if currentUserRank \<noteq> ''Gold'' \<and> subtotalWithTax < 5000 then 500 else 0);
         couponDiscountAmount = calculateCouponDiscount appliedCoupon subtotalWithTax;
         afterCouponAmount = sub64 subtotalWithTax couponDiscountAmount;
         afterPointsAmount0 = sub64 (add64 afterCouponAmount shippingFee) usePts;
         afterPointsAmount = (if afterPointsAmount0 < 0 then 0 else afterPointsAmount0);
         totalPrice = afterPointsAmount;
         earnedPoints = totalPrice sdiv 100
     in \<lparr> rankDiscountAmount = rankDiscountAmount, discountedSubtotal = discountedSubtotal,
          tax = tax, subtotalWithTax = subtotalWithTax, shippingFee = shippingFee,
          couponDiscountAmount = couponDiscountAmount, afterCouponAmount = afterCouponAmount,
          afterPointsAmount = afterPointsAmount, totalPrice = totalPrice,
          earnedPoints = earnedPoints \<rparr>)"

subsection \<open>Inventory: \<^verbatim>\<open>getProductStock\<close> and \<^verbatim>\<open>allocateStock\<close>\<close>

text \<open>
  \<open>getProductStock stk whs ks productID\<close>: the loop \<^verbatim>\<open>for _, stock := range stocks\<close>
  visits the keys in the order \<open>ks\<close>; it returns the total and the per-warehouse details.
\<close>

fun getProductStock_loop ::
  "(string \<rightharpoonup> Stock) \<Rightarrow> (int \<rightharpoonup> Warehouse) \<Rightarrow> int \<Rightarrow> string list
    \<Rightarrow> int \<times> StockWarehouse list \<Rightarrow> int \<times> StockWarehouse list" where
  "getProductStock_loop stk whs productID [] acc = acc"
| "getProductStock_loop stk whs productID (k # ks) (totalStock, stockDetails) =
    (case stk k of
       None \<Rightarrow> getProductStock_loop stk whs productID ks (totalStock, stockDetails)
     | Some stock \<Rightarrow>
         if ProductID stock = productID \<and> Quantity stock > 0 then
           (case whs (WarehouseID stock) of
              Some warehouse \<Rightarrow>
                getProductStock_loop stk whs productID ks
                  (totalStock + Quantity stock,
                   stockDetails @ [\<lparr> WarehouseName = wh_Name warehouse,
                                      sw_Quantity = Quantity stock \<rparr>])
            | None \<Rightarrow>
                getProductStock_loop stk whs productID ks (totalStock, stockDetails))
         else getProductStock_loop stk whs productID ks (totalStock, stockDetails))"

definition getProductStock ::
  "(string \<rightharpoonup> Stock) \<Rightarrow> (int \<rightharpoonup> Warehouse) \<Rightarrow> string list \<Rightarrow> int
    \<Rightarrow> int \<times> StockWarehouse list" where
  "getProductStock stk whs ks productID =
     getProductStock_loop stk whs productID ks (0, [])"

text \<open>
  \<open>allocateStock\<close>, first loop: the stock lines of the product with a positive quantity, in
  the order \<open>ks\<close> of the visit.
\<close>

definition availableStocks :: "(string \<rightharpoonup> Stock) \<Rightarrow> string list \<Rightarrow> int \<Rightarrow> Stock list" where
  "availableStocks stk ks productID =
     filter (\<lambda>stock. ProductID stock = productID \<and> Quantity stock > 0)
       (List.map_filter stk ks)"

text \<open>
  Second loop: the draw plan. \<^verbatim>\<open>allocations\<close> is a Go map from warehouse to quantity; it
  is kept as an association list with one entry per key (\<open>AList.update\<close> overwrites or
  appends).
\<close>

fun allocate_loop :: "Stock list \<Rightarrow> (int \<times> int) list \<Rightarrow> int \<Rightarrow> (int \<times> int) list \<times> int" where
  "allocate_loop [] allocations remaining = (allocations, remaining)"
| "allocate_loop (stock # rest) allocations remaining =
    (if remaining \<le> 0 then (allocations, remaining)
     else if Quantity stock \<ge> remaining then
       allocate_loop rest (AList.update (WarehouseID stock) remaining allocations) 0
     else
       allocate_loop rest (AList.update (WarehouseID stock) (Quantity stock) allocations)
         (remaining - Quantity stock))"

text \<open>
  Third loop: \<^verbatim>\<open>for warehouseID, quantity := range allocations\<close> decrements the stock line
  under the key of the product and the warehouse, when there is one. The loop visits the
  entries in the order of the list; lemma \<open>commit_loop_order\<close> below shows that the order
  of this visit does not change the result.
\<close>

fun commit_loop :: "int \<Rightarrow> (int \<times> int) list \<Rightarrow> (string \<rightharpoonup> Stock) \<Rightarrow> (string \<rightharpoonup> Stock)" where
  "commit_loop productID [] stk = stk"
| "commit_loop productID ((warehouseID, quantity) # rest) stk =
    commit_loop productID rest
      (case stk (stockKey productID warehouseID) of
         Some stock \<Rightarrow>
           stk(stockKey productID warehouseID \<mapsto>
                    stock\<lparr> Quantity := Quantity stock - quantity \<rparr>)
       | None \<Rightarrow> stk)"

text \<open>
  \<open>allocateStock stk ks productID requiredQuantity\<close> returns the plan (\<open>None\<close> for
  \<^verbatim>\<open>false, nil\<close>) and the stock lines after the call.
\<close>

definition allocateStock ::
  "(string \<rightharpoonup> Stock) \<Rightarrow> string list \<Rightarrow> int \<Rightarrow> int
    \<Rightarrow> (int \<times> int) list option \<times> (string \<rightharpoonup> Stock)" where
  "allocateStock stk ks productID requiredQuantity =
    (case allocate_loop (availableStocks stk ks productID) [] requiredQuantity of
       (allocations, remaining) \<Rightarrow>
         if remaining = 0 then (Some allocations, commit_loop productID allocations stk)
         else (None, stk))"

subsection \<open>Points and rank\<close>

definition updateUserPurchaseAmountAndRank :: "Store \<Rightarrow> int \<Rightarrow> int \<Rightarrow> Store" where
  "updateUserPurchaseAmountAndRank st userID amount =
    (case users st userID of
       Some user \<Rightarrow>
         let total = TotalSpentAmount user + amount
         in st\<lparr> users := (users st)(userID \<mapsto>
                  user\<lparr> TotalSpentAmount := total, MemberRank := calculateMemberRank total \<rparr>) \<rparr>
     | None \<Rightarrow> st)"

definition recordHistory :: "Store \<Rightarrow> int \<Rightarrow> int \<Rightarrow> string \<Rightarrow> int \<Rightarrow> int \<Rightarrow> Store" where
  \<comment> \<open>the block that stores a \<^verbatim>\<open>PointHistory\<close> under \<^verbatim>\<open>nextPointHistoryID\<close> and advances it\<close>
  "recordHistory st userID orderID kind points balance =
    st\<lparr> pointHistories := (pointHistories st)(nextPointHistoryID st \<mapsto>
           \<lparr> hist_ID = nextPointHistoryID st, hist_UserID = userID, hist_OrderID = orderID,
             hist_Type = kind, hist_Amount = points, Balance = balance \<rparr>),
        nextPointHistoryID := nextPointHistoryID st + 1 \<rparr>"

definition addPoints :: "Store \<Rightarrow> int \<Rightarrow> int \<Rightarrow> int \<Rightarrow> Store" where
  "addPoints st userID orderID points =
    (case users st userID of
       Some user \<Rightarrow>
         let user' = user\<lparr> CurrentPoints := CurrentPoints user + points \<rparr>
         in recordHistory (st\<lparr> users := (users st)(userID \<mapsto> user') \<rparr>)
              userID orderID ''earned'' points (CurrentPoints user')
     | None \<Rightarrow> st)"

definition usePoints :: "Store \<Rightarrow> int \<Rightarrow> int \<Rightarrow> int \<Rightarrow> bool \<times> Store" where
  "usePoints st userID orderID points =
    (case users st userID of
       Some user \<Rightarrow>
         if CurrentPoints user \<ge> points then
           (let user' = user\<lparr> CurrentPoints := CurrentPoints user - points \<rparr>
            in (True, recordHistory (st\<lparr> users := (users st)(userID \<mapsto> user') \<rparr>)
                        userID orderID ''used'' points (CurrentPoints user')))
         else (False, st)
     | None \<Rightarrow> (False, st))"

definition rollbackPoints :: "Store \<Rightarrow> int \<Rightarrow> int \<Rightarrow> int \<Rightarrow> Store" where
  "rollbackPoints st userID orderID points =
    (case users st userID of
       Some user \<Rightarrow>
         let user' = user\<lparr> CurrentPoints := CurrentPoints user + points \<rparr>
         in recordHistory (st\<lparr> users := (users st)(userID \<mapsto> user') \<rparr>)
              userID orderID ''rollback'' points (CurrentPoints user')
     | None \<Rightarrow> st)"

subsection \<open>\<^verbatim>\<open>createOrderHandler\<close>\<close>

text \<open>
  The error responses of the handler, one constructor for each \<^verbatim>\<open>errorResponse\<close> call
  (with the values its message prints), and the HTTP status each one sends.
  \<open>NilUserPanic\<close> is the run-time panic of \<^verbatim>\<open>updatedUser.CurrentPoints\<close> when
  \<^verbatim>\<open>users[user.ID]\<close> is nil; it sends no status, \<open>http_status\<close> gives 0 for it.
\<close>

datatype error =
    Unauthorized
  | NoItems
  | InvalidUsePoints
  | InsufficientPoints int int
  | InvalidCouponCode
  | InvalidQuantity nat
  | ProductNotFound int
  | InsufficientStock string int int
  | FailedToUsePoints
  | StockAllocationFailed
  | PaymentFailed string
  | NilUserPanic

fun http_status :: "error \<Rightarrow> int" where
  "http_status Unauthorized = 401"
| "http_status NoItems = 400"
| "http_status InvalidUsePoints = 400"
| "http_status (InsufficientPoints available requested) = 400"
| "http_status InvalidCouponCode = 400"
| "http_status (InvalidQuantity i) = 400"
| "http_status (ProductNotFound productID) = 404"
| "http_status (InsufficientStock name available requested) = 400"
| "http_status FailedToUsePoints = 500"
| "http_status StockAllocationFailed = 409"
| "http_status (PaymentFailed message) = 402"
| "http_status NilUserPanic = 0"

record Request =
  req_Items :: "OrderItem list"
  CouponCode :: string
  UsePoints :: int

text \<open>The body of the 201 response: the order, the transaction and the refreshed user.\<close>

record OrderResponse =
  resp_Order :: Order
  resp_TransactionID :: string
  NewTotalPoints :: int
  CurrentRank :: string

text \<open>
  What the handler takes from outside the store: the user that \<^verbatim>\<open>getAuthUser\<close> finds for
  the session (a pointer in the source: the fields read are those of the object at the
  start of the request), the payment gateway, and for the \<open>n\<close>-th \<^verbatim>\<open>range stocks\<close> loop
  of the run the order \<open>rangeStocks n\<close> of its visit.
\<close>

record Env =
  sessionUser :: "User option"
  ProcessPayment :: "int \<Rightarrow> int \<Rightarrow> PaymentResult"
  rangeStocks :: "nat \<Rightarrow> string list"

text \<open>
  The validation loop over \<^verbatim>\<open>req.Items\<close>: \<open>i\<close> is the index of the item, \<open>subtotal\<close> the
  sum so far. The \<open>i\<close>-th item makes the \<open>i\<close>-th visit of the stock map.
\<close>

fun validate_items ::
  "Store \<Rightarrow> (nat \<Rightarrow> string list) \<Rightarrow> nat \<Rightarrow> OrderItem list \<Rightarrow> int \<Rightarrow> error + int" where
  "validate_items st rng i [] subtotal = Inr subtotal"
| "validate_items st rng i (item # rest) subtotal =
    (if item_Quantity item \<le> 0 then Inl (InvalidQuantity i)
     else case products st (item_ProductID item) of
       None \<Rightarrow> Inl (ProductNotFound (item_ProductID item))
     | Some product \<Rightarrow>
         let totalStock = fst (getProductStock (stocks st) (warehouses st) (rng i) (prod_ID product))
         in if totalStock < item_Quantity item then
              Inl (InsufficientStock (prod_Name product) totalStock (item_Quantity item))
            else validate_items st rng (Suc i) rest
                   (add64 subtotal (mul64 (Price product) (item_Quantity item))))"

text \<open>
  The allocation loop after a successful payment: it stops at the first item whose
  allocation fails. (\<^verbatim>\<open>stockAllocations\<close> is written and never read: it is left out.)
\<close>

fun allocate_items ::
  "(nat \<Rightarrow> string list) \<Rightarrow> nat \<Rightarrow> OrderItem list \<Rightarrow> (string \<rightharpoonup> Stock)
    \<Rightarrow> bool \<times> (string \<rightharpoonup> Stock)" where
  "allocate_items rng i [] stk = (True, stk)"
| "allocate_items rng i (item # rest) stk =
    (case allocateStock stk (rng i) (item_ProductID item) (item_Quantity item) of
       (None, stk') \<Rightarrow> (False, stk')
     | (Some allocations, stk') \<Rightarrow> allocate_items rng (Suc i) rest stk')"

definition saveOrder :: "Store \<Rightarrow> Order \<Rightarrow> Store" where
  \<comment> \<open>\<^verbatim>\<open>nextOrderID++; orders[order.ID] = order\<close>\<close>
  "saveOrder st order = st\<lparr> nextOrderID := nextOrderID st + 1,
                            orders := (orders st)(order_ID order \<mapsto> order) \<rparr>"

text \<open>
  The handler is written in two parts. \<open>placeOrder\<close> is the handler from the charge
  computation to the end, for a request that passed the validation: \<open>user\<close> is the session
  user, \<open>appliedCoupon\<close> the coupon found and \<open>subtotal\<close> the sum of the validation loop.
  \<open>createOrderHandler\<close> is the validation, in the order of the source, followed by
  \<open>placeOrder\<close>.
\<close>

definition newOrder :: "int \<Rightarrow> User \<Rightarrow> Request \<Rightarrow> Charge \<Rightarrow> Order" where
  \<comment> \<open>the order object built after the payment call; its status is set later\<close>
  "newOrder orderID user req c =
     \<lparr> order_ID = orderID, order_UserID = user_ID user, Items = req_Items req,
       TotalPrice = totalPrice c, ShippingFee = shippingFee c,
       DiscountAmount = couponDiscountAmount c, AppliedCoupon = CouponCode req,
       Status = [], EarnedPoints = earnedPoints c, UsedPoints = UsePoints req,
       RankDiscount = rankDiscountAmount c \<rparr>"

definition placeOrder ::
  "Env \<Rightarrow> Request \<Rightarrow> Store \<Rightarrow> User \<Rightarrow> Coupon option \<Rightarrow> int
    \<Rightarrow> (error + OrderResponse) \<times> Store" where
  "placeOrder env req st user appliedCoupon subtotal =
    (let c = computeCharge (MemberRank user) appliedCoupon subtotal (UsePoints req);
         orderID = nextOrderID st;
         (pointsUsed, st1) =
            (if UsePoints req > 0 then usePoints st (user_ID user) orderID (UsePoints req)
             else (False, st))
     in
     if UsePoints req > 0 \<and> \<not> pointsUsed then (Inl FailedToUsePoints, st1)
     else
       let paymentResult = ProcessPayment env (totalPrice c) orderID;
           order = newOrder orderID user req c
       in
       if Success paymentResult then
         (case allocate_items (rangeStocks env) (length (req_Items req)) (req_Items req)
                 (stocks st1) of
            (allAllocated, stk) \<Rightarrow>
              let st2 = st1\<lparr> stocks := stk \<rparr> in
              if \<not> allAllocated then
                (let st3 = (if pointsUsed
                            then rollbackPoints st2 (user_ID user) orderID (UsePoints req)
                            else st2)
                 in (Inl StockAllocationFailed,
                     saveOrder st3 (order\<lparr> Status := ''payment_failed'' \<rparr>)))
              else
                (let order = order\<lparr> Status := ''completed'' \<rparr>;
                     st3 = (if earnedPoints c > 0
                            then addPoints st2 (user_ID user) orderID (earnedPoints c)
                            else st2);
                     st4 = updateUserPurchaseAmountAndRank st3 (user_ID user) (totalPrice c)
                 in case users st4 (user_ID user) of
                      None \<Rightarrow> (Inl NilUserPanic, st4)
                    | Some updatedUser \<Rightarrow>
                        (Inr \<lparr> resp_Order = order,
                               resp_TransactionID = TransactionID paymentResult,
                               NewTotalPoints = CurrentPoints updatedUser,
                               CurrentRank = MemberRank updatedUser \<rparr>,
                         saveOrder st4 order)))
       else
         (let st3 = (if pointsUsed
                     then rollbackPoints st1 (user_ID user) orderID (UsePoints req)
                     else st1)
          in (Inl (PaymentFailed (Message paymentResult)),
              saveOrder st3 (order\<lparr> Status := ''payment_failed'' \<rparr>))))"

definition createOrderHandler :: "Env \<Rightarrow> Request \<Rightarrow> Store \<Rightarrow> (error + OrderResponse) \<times> Store" where
  "createOrderHandler env req st =
    (case sessionUser env of
       None \<Rightarrow> (Inl Unauthorized, st)
     | Some user \<Rightarrow>
         if req_Items req = [] then (Inl NoItems, st)
         else if UsePoints req < 0 then (Inl InvalidUsePoints, st)
         else if UsePoints req > CurrentPoints user then
           (Inl (InsufficientPoints (CurrentPoints user) (UsePoints req)), st)
         else
           let appliedCoupon =
                 (if CouponCode req \<noteq> [] then coupons st (CouponCode req) else None)
           in
           if CouponCode req \<noteq> [] \<and> appliedCoupon = None then (Inl InvalidCouponCode, st)
           else
             case validate_items st (rangeStocks env) 0 (req_Items req) 0 of
               Inl e \<Rightarrow> (Inl e, st)
             | Inr subtotal \<Rightarrow> placeOrder env req st user appliedCoupon subtotal)"

subsection \<open>Well-formed stock maps\<close>

text \<open>
  \<open>range_of ks m\<close>: \<open>ks\<close> is an order in which a \<^verbatim>\<open>range\<close> loop can visit the map \<open>m\<close>, every
  key once. \<open>keys_match\<close>: every stock line is stored under the key of its own product and
  warehouse, as \<^verbatim>\<open>init\<close>, \<^verbatim>\<open>createProductHandler\<close> and the tests store them.
  \<open>warehouses_exist\<close>: the warehouse of every stock line is in the warehouse map.
  \<open>drawn\<close> and \<open>line_quantity\<close> are used in the proofs: the quantity that the entries
  of a plan take from the line under a key, and the quantity a key contributes to the
  available stock of a product.
\<close>

definition range_of :: "string list \<Rightarrow> (string \<rightharpoonup> 'a) \<Rightarrow> bool" where
  "range_of ks m \<longleftrightarrow> distinct ks \<and> set ks = dom m"

definition keys_match :: "(string \<rightharpoonup> Stock) \<Rightarrow> bool" where
  "keys_match stk \<longleftrightarrow>
     (\<forall>k stock. stk k = Some stock \<longrightarrow> k = stockKey (ProductID stock) (WarehouseID stock))"

definition warehouses_exist :: "(string \<rightharpoonup> Stock) \<Rightarrow> (int \<rightharpoonup> Warehouse) \<Rightarrow> bool" where
  "warehouses_exist stk whs \<longleftrightarrow>
     (\<forall>k stock. stk k = Some stock \<longrightarrow> whs (WarehouseID stock) \<noteq> None)"

definition drawn :: "int \<Rightarrow> (int \<times> int) list \<Rightarrow> string \<Rightarrow> int" where
  "drawn productID allocations k =
     sum_list (map (\<lambda>(warehouseID, quantity).
                      if stockKey productID warehouseID = k then quantity else 0) allocations)"

definition line_quantity :: "(string \<rightharpoonup> Stock) \<Rightarrow> int \<Rightarrow> string \<Rightarrow> int" where
  "line_quantity stk pid k =
     (case stk k of
        Some s \<Rightarrow> if ProductID s = pid \<and> 0 < Quantity s then Quantity s else 0
      | None \<Rightarrow> 0)"

text \<open>The stock lines that \<^verbatim>\<open>init\<close> creates, and two orders of visiting them.\<close>

definition init_stocks :: "string \<rightharpoonup> Stock" where
  "init_stocks =
    [''1-1'' \<mapsto> \<lparr> ProductID = 1, WarehouseID = 1, Quantity = 5 \<rparr>,
     ''1-2'' \<mapsto> \<lparr> ProductID = 1, WarehouseID = 2, Quantity = 3 \<rparr>,
     ''1-3'' \<mapsto> \<lparr> ProductID = 1, WarehouseID = 3, Quantity = 2 \<rparr>,
     ''2-1'' \<mapsto> \<lparr> ProductID = 2, WarehouseID = 1, Quantity = 20 \<rparr>,
     ''2-2'' \<mapsto> \<lparr> ProductID = 2, WarehouseID = 2, Quantity = 20 \<rparr>,
     ''2-3'' \<mapsto> \<lparr> ProductID = 2, WarehouseID = 3, Quantity = 10 \<rparr>,
     ''3-1'' \<mapsto> \<lparr> ProductID = 3, WarehouseID = 1, Quantity = 2 \<rparr>,
     ''3-2'' \<mapsto> \<lparr> ProductID = 3, WarehouseID = 2, Quantity = 2 \<rparr>,
     ''3-3'' \<mapsto> \<lparr> ProductID = 3, WarehouseID = 3, Quantity = 1 \<rparr>,
     ''4-1'' \<mapsto> \<lparr> ProductID = 4, WarehouseID = 1, Quantity = 3 \<rparr>,
     ''4-2'' \<mapsto> \<lparr> ProductID = 4, WarehouseID = 2, Quantity = 3 \<rparr>,
     ''4-3'' \<mapsto> \<lparr> ProductID = 4, WarehouseID = 3, Quantity = 2 \<rparr>]"

definition order_a :: "string list" where
  "order_a = [''1-1'', ''1-2'', ''1-3'', ''2-1'', ''2-2'', ''2-3'',
              ''3-1'', ''3-2'', ''3-3'', ''4-1'', ''4-2'', ''4-3'']"

definition order_b :: "string list" where
  "order_b = [''4-3'', ''4-2'', ''4-1'', ''3-3'', ''3-2'', ''3-1'',
              ''2-3'', ''2-2'', ''2-1'', ''1-3'', ''1-2'', ''1-1'']"

subsection \<open>Data of \<^verbatim>\<open>init\<close> and of the tests\<close>

text \<open>
  The warehouses and coupons that \<^verbatim>\<open>init\<close> creates (the names and descriptions are
  transliterated), and the store of \<^verbatim>\<open>TestCreateOrderHandler\<close>: products 200 and 201 at
  1000 and 2000, ten and five units in warehouse 1, and one user of rank Normal.
\<close>

definition init_warehouses :: "int \<rightharpoonup> Warehouse" where
  "init_warehouses = [1 \<mapsto> \<lparr> wh_ID = 1, wh_Name = ''Tokyo'' \<rparr>,
                      2 \<mapsto> \<lparr> wh_ID = 2, wh_Name = ''Osaka'' \<rparr>,
                      3 \<mapsto> \<lparr> wh_ID = 3, wh_Name = ''Fukuoka'' \<rparr>]"

definition init_coupons :: "string \<rightharpoonup> Coupon" where
  "init_coupons =
    [''SAVE10'' \<mapsto> \<lparr> Code = ''SAVE10'', coupon_Type = ''percentage'', Amount = 10,
                      Description = ''10% off'' \<rparr>,
     ''SAVE20'' \<mapsto> \<lparr> Code = ''SAVE20'', coupon_Type = ''percentage'', Amount = 20,
                      Description = ''20% off'' \<rparr>,
     ''FLAT1000'' \<mapsto> \<lparr> Code = ''FLAT1000'', coupon_Type = ''fixed'', Amount = 1000,
                        Description = ''1000 off'' \<rparr>,
     ''FLAT2000'' \<mapsto> \<lparr> Code = ''FLAT2000'', coupon_Type = ''fixed'', Amount = 2000,
                        Description = ''2000 off'' \<rparr>]"

definition test_user :: User where
  "test_user = \<lparr> user_ID = 3, Username = ''orderuser'', PasswordHash = [], IsAdmin = False,
                  Token = [], CurrentPoints = 0, TotalSpentAmount = 0, MemberRank = ''Normal'' \<rparr>"

definition test_stocks :: "string \<rightharpoonup> Stock" where
  "test_stocks = [''200-1'' \<mapsto> \<lparr> ProductID = 200, WarehouseID = 1, Quantity = 10 \<rparr>,
                  ''201-1'' \<mapsto> \<lparr> ProductID = 201, WarehouseID = 1, Quantity = 5 \<rparr>]"

definition test_store :: Store where
  "test_store =
    \<lparr> products = [200 \<mapsto> \<lparr> prod_ID = 200, prod_Name = ''A'', Price = 1000, Category = ''test'' \<rparr>,
                   201 \<mapsto> \<lparr> prod_ID = 201, prod_Name = ''B'', Price = 2000, Category = ''test'' \<rparr>],
      warehouses = init_warehouses,
      stocks = test_stocks,
      users = [3 \<mapsto> test_user],
      orders = Map.empty,
      coupons = init_coupons,
      pointHistories = Map.empty,
      nextOrderID = 1,
      nextPointHistoryID = 1 \<rparr>"

definition test_cart :: "OrderItem list" where
  "test_cart = [\<lparr> item_ProductID = 200, item_Quantity = 2 \<rparr>,
                \<lparr> item_ProductID = 201, item_Quantity = 1 \<rparr>]"

definition test_range :: "nat \<Rightarrow> string list" where
  "test_range n = [''200-1'', ''201-1'']"

text \<open>
  The mock gateway of the tests, which succeeds or fails as it is told, and the
  environment of a request of \<open>test_user\<close>.
\<close>

definition mock_gateway :: "bool \<Rightarrow> int \<Rightarrow> int \<Rightarrow> PaymentResult" where
  "mock_gateway shouldSucceed amount orderID =
     (if shouldSucceed
      then \<lparr> Success = True, TransactionID = ''TEST_TXN_123'',
             Message = ''Test payment successful'' \<rparr>
      else \<lparr> Success = False, TransactionID = [], Message = ''Test payment failed'' \<rparr>)"

definition test_env :: "User \<Rightarrow> bool \<Rightarrow> Env" where
  "test_env user shouldSucceed =
     \<lparr> sessionUser = Some user, ProcessPayment = mock_gateway shouldSucceed,
       rangeStocks = test_range \<rparr>"

text \<open>
  The same store when the user holds 1000 points.
\<close>

definition points_user :: User where
  "points_user = test_user\<lparr> CurrentPoints := 1000 \<rparr>"

definition points_store :: Store where
  "points_store = test_store\<lparr> users := [3 \<mapsto> points_user] \<rparr>"

text \<open>
  Three requests of the user with points: the test cart with the coupon FLAT1000 and 300
  points; a cart whose second item has quantity 0; and a cart that asks twice for six
  units of product 200, of which ten are in stock. \<open>stocks_after_six\<close> is the stock of the
  tests after six units of product 200 have left warehouse 1.
\<close>

definition coupon_points_request :: Request where
  "coupon_points_request = \<lparr> req_Items = test_cart, CouponCode = ''FLAT1000'', UsePoints = 300 \<rparr>"

definition bad_quantity_request :: Request where
  "bad_quantity_request =
     \<lparr> req_Items = [\<lparr> item_ProductID = 200, item_Quantity = 2 \<rparr>,
                     \<lparr> item_ProductID = 201, item_Quantity = 0 \<rparr>],
       CouponCode = [], UsePoints = 0 \<rparr>"

definition twice_six_request :: Request where
  "twice_six_request =
     \<lparr> req_Items = [\<lparr> item_ProductID = 200, item_Quantity = 6 \<rparr>,
                     \<lparr> item_ProductID = 200, item_Quantity = 6 \<rparr>],
       CouponCode = [], UsePoints = 300 \<rparr>"

definition stocks_after_six :: "string \<rightharpoonup> Stock" where
  "stocks_after_six = test_stocks(''200-1'' \<mapsto> \<lparr> ProductID = 200, WarehouseID = 1, Quantity = 4 \<rparr>)"

text \<open>
  The store of the tests when product 200 costs 9223372036854775308, and a cart of two
  units of it.
\<close>

definition costly_store :: Store where
  "costly_store =
     test_store\<lparr> products :=
       [200 \<mapsto> \<lparr> prod_ID = 200, prod_Name = ''A'', Price = 9223372036854775308,
                   Category = ''test'' \<rparr>] \<rparr>"

definition costly_cart :: "OrderItem list" where
  "costly_cart = [\<lparr> item_ProductID = 200, item_Quantity = 2 \<rparr>]"

subsection \<open>The line subtotal of the specification\<close>

text \<open>
  The specification defines the line subtotal as the sum of unit price times quantity
  over the line items. \<open>spec_lineSubtotal\<close> is that sum, as an integer without bound; it is
  compared below with the subtotal that the validation loop accumulates in 64 bits.
\<close>

fun spec_lineSubtotal :: "(int \<rightharpoonup> Product) \<Rightarrow> OrderItem list \<Rightarrow> int" where
  "spec_lineSubtotal prods [] = 0"
| "spec_lineSubtotal prods (item # rest) =
     (case prods (item_ProductID item) of
        Some product \<Rightarrow> Price product * item_Quantity item
      | None \<Rightarrow> 0)
     + spec_lineSubtotal prods rest"

subsection \<open>The tier rate table of the specification\<close>

text \<open>
  The specification gives the tier discount as the subtotal times a rate of 5 percent for
  the top tier, 3 percent for the middle tier and 0 for the base tier. \<open>spec_tierRatePercent\<close>
  is that table, in percent; it is compared below with what \<^verbatim>\<open>getRankDiscountRate\<close> and the
  binary64 product compute.
\<close>

definition spec_tierRatePercent :: "string \<Rightarrow> int" where
  "spec_tierRatePercent rank =
     (if rank = ''Gold'' then 5 else if rank = ''Silver'' then 3 else 0)"

section \<open>Properties\<close>

subsection \<open>binary64: rounding and truncation\<close>

lemma bit_length_bounds: "0 < n \<Longrightarrow> 2 ^ (bit_length n - 1) \<le> n \<and> n < 2 ^ bit_length n"
proof (induction n rule: bit_length.induct)
  case (1 n)
  show ?case
  proof (cases "n div 2 = 0")
    case True
    with "1.prems" have "n = 1" by presburger
    then show ?thesis by (simp add: bit_length.simps)
  next
    case False
    then have pos: "0 < n div 2" by simp
    from "1.prems" have n0: "n \<noteq> 0" by simp
    from "1.IH"[OF n0 pos] have
      lo: "2 ^ (bit_length (n div 2) - 1) \<le> n div 2" and hi: "n div 2 < 2 ^ bit_length (n div 2)"
      by simp_all
    have bl: "bit_length n = Suc (bit_length (n div 2))"
      using n0 by (subst bit_length.simps) simp
    have blpos: "0 < bit_length (n div 2)"
      using pos by (subst bit_length.simps) simp
    then obtain j where j: "bit_length (n div 2) = Suc j" by (cases "bit_length (n div 2)") auto
    from lo j have "2 * 2 ^ j \<le> 2 * (n div 2)" by simp
    then have l: "2 ^ (bit_length n - 1) \<le> n" using bl j by simp
    from hi have "n < 2 * 2 ^ bit_length (n div 2)" by linarith
    then show ?thesis using l bl by simp
  qed
qed

text \<open>What \<open>round53\<close> does to a non-negative mantissa.\<close>

lemma round53_small: "\<bar>m\<bar> < 2 ^ 53 \<Longrightarrow> round53 (m, e) = (m, e)"
  by (simp add: round53_def)

lemma round53_big:
  assumes "2 ^ 53 \<le> m"
  obtains b q' where "round53 (m, e) = (q', e + int b)" "1 \<le> b"
    "2 ^ (b + 52) \<le> m" "m < 2 ^ (b + 53)" "0 \<le> q'"
    "q' * 2 ^ b \<le> m + 2 ^ (b - 1)" "m \<le> q' * 2 ^ b + 2 ^ (b - 1)"
proof -
  define L where "L = bit_length (nat m)"
  define b where "b = L - 53"
  define q where "q = m div 2 ^ b"
  define r where "r = m mod 2 ^ b"
  define h :: int where "h = 2 ^ (b - 1)"
  define q' where "q' = (if h < r \<or> (r = h \<and> odd q) then q + 1 else q)"
  have "(0::int) < 2 ^ 53" by simp
  then have mpos: "0 < m" using assms by linarith
  then have npos: "0 < nat m" by simp
  from bit_length_bounds[OF npos] have
    lo: "2 ^ (L - 1) \<le> nat m" and hi: "nat m < 2 ^ L" by (simp_all add: L_def)
  have "int (nat m) < int (2 ^ L)" using hi by (simp only: of_nat_less_iff)
  then have hi': "m < 2 ^ L" using mpos by simp
  have "int (2 ^ (L - 1)) \<le> int (nat m)" using lo by (simp only: of_nat_le_iff)
  then have lo': "2 ^ (L - 1) \<le> m" using mpos by simp
  have L54: "54 \<le> L"
  proof (rule ccontr)
    assume "\<not> 54 \<le> L"
    then have "L \<le> 53" by simp
    then have "(2::int) ^ L \<le> 2 ^ 53" by (rule power_increasing) simp
    with assms hi' show False by linarith
  qed
  then have b1: "1 \<le> b" and Lb: "L = b + 53" by (simp_all add: b_def)
  have eq: "round53 (m, e) = (q', e + int b)"
    using assms mpos unfolding q'_def h_def r_def q_def b_def L_def round53_def
    by (simp add: Let_def)
  define p :: int where "p = 2 ^ b"
  have p2: "p = 2 * h" using b1 by (simp add: p_def h_def power_eq_if)
  have m_eq: "m = q * p + r"
    using div_mult_mod_eq[of m "2 ^ b"] by (simp add: q_def r_def p_def)
  have ppos: "0 < p" by (simp add: p_def)
  have r0: "0 \<le> r" and r1: "r < p" using ppos by (simp_all add: r_def p_def)
  have q0: "0 \<le> q" using mpos by (simp add: q_def pos_imp_zdiv_nonneg_iff)
  have q'_cases: "(q' = q + 1 \<and> h \<le> r) \<or> (q' = q \<and> r \<le> h)"
    by (auto simp: q'_def)
  have q'p: "q' = q + 1 \<Longrightarrow> q' * p = q * p + p" by (simp add: distrib_right)
  have up: "q' * p \<le> m + h"
    using q'_cases m_eq r0 r1 p2 q'p by auto
  have down: "m \<le> q' * p + h"
    using q'_cases m_eq r0 r1 p2 q'p by auto
  have q'0: "0 \<le> q'" using q0 q'_cases by auto
  show thesis
  proof (rule that[of q' b])
    show "round53 (m, e) = (q', e + int b)" by (fact eq)
    show "1 \<le> b" by (fact b1)
    have e1: "L - 1 = b + 52" using Lb by simp
    show "2 ^ (b + 52) \<le> m" using lo' unfolding e1 .
    show "m < 2 ^ (b + 53)" using hi' unfolding Lb .
    show "0 \<le> q'" by (fact q'0)
    show "q' * 2 ^ b \<le> m + 2 ^ (b - 1)" using up by (simp add: p_def h_def)
    show "m \<le> q' * 2 ^ b + 2 ^ (b - 1)" using down by (simp add: p_def h_def)
  qed
qed

lemma round53_crude:
  assumes "0 \<le> m"
  obtains m' b where "round53 (m, e) = (m', e + int b)" "0 \<le> m'" "m' * 2 ^ b \<le> 2 * m"
proof (cases "m < 2 ^ 53")
  case True
  then have "round53 (m, e) = (m, e + int 0)" using assms by (simp add: round53_small)
  then show thesis using that[of m 0] assms by simp
next
  case False
  then have "2 ^ 53 \<le> m" by simp
  then obtain b q' where r: "round53 (m, e) = (q', e + int b)" and b: "1 \<le> b"
    and lo: "2 ^ (b + 52) \<le> m" and q: "0 \<le> q'" and up: "q' * 2 ^ b \<le> m + 2 ^ (b - 1)"
    by (rule round53_big)
  have "(2::int) ^ (b - 1) \<le> 2 ^ (b + 52)" by (rule power_increasing) simp_all
  with lo up have "q' * 2 ^ b \<le> 2 * m" by linarith
  with r q show thesis by (rule that)
qed

lemma int_of_float64_bound:
  assumes "0 \<le> m"
  shows "0 \<le> int_of_float64 (m, int e - int k) \<and> int_of_float64 (m, int e - int k) * 2 ^ k \<le> m * 2 ^ e"
proof (cases "k \<le> e")
  case True
  then have v: "int_of_float64 (m, int e - int k) = m * 2 ^ (e - k)"
    by (simp add: int_of_float64_def nat_diff_distrib')
  have pw: "(2::int) ^ (e - k) * 2 ^ k = 2 ^ e" using True by (simp flip: power_add)
  have "m * 2 ^ (e - k) * 2 ^ k = m * (2 ^ (e - k) * 2 ^ k)" by (rule mult.assoc)
  also have "\<dots> = m * 2 ^ e" by (simp only: pw)
  finally have eq: "m * 2 ^ (e - k) * 2 ^ k = m * 2 ^ e" .
  show ?thesis unfolding v
  proof
    show "0 \<le> m * 2 ^ (e - k)" using assms by simp
    show "m * 2 ^ (e - k) * 2 ^ k \<le> m * 2 ^ e" by (simp only: eq order_refl)
  qed
next
  case False
  then have lt: "e < k" by simp
  then have nn: "nat (int k - int e) = k - e" by (simp add: nat_diff_distrib')
  define d :: int where "d = 2 ^ (k - e)"
  have dpos: "0 < d" by (simp add: d_def)
  have v: "int_of_float64 (m, int e - int k) = sgn m * (m div d)"
    using lt assms by (simp add: int_of_float64_def nn d_def)
  have dn: "0 \<le> m div d" using assms dpos by (simp add: pos_imp_zdiv_nonneg_iff)
  have sg: "sgn m * (m div d) = m div d"
  proof (cases "m = 0")
    case True then show ?thesis by simp
  next
    case False with assms have "sgn m = 1" by simp
    then show ?thesis by simp
  qed
  have k: "(2::int) ^ k = d * 2 ^ e" using lt by (simp add: d_def flip: power_add)
  have "m div d * d + m mod d = m" by (rule div_mult_mod_eq)
  moreover have "0 \<le> m mod d" using dpos by simp
  ultimately have "m div d * d \<le> m" by linarith
  then have "m div d * d * 2 ^ e \<le> m * 2 ^ e" by (simp add: mult_right_mono)
  then have "m div d * 2 ^ k \<le> m * 2 ^ e" by (simp add: k mult.assoc)
  then show ?thesis using v sg dn by simp
qed

lemma rank_discount_crude:
  assumes s: "0 \<le> s" and R: "0 \<le> R" and small: "4 * R \<le> 2 ^ k"
  shows "0 \<le> int_of_float64 (fmul (float64_of_int s) (R, - int k))
       \<and> int_of_float64 (fmul (float64_of_int s) (R, - int k)) \<le> s"
proof -
  obtain m1 b1 where f1: "round53 (s, 0) = (m1, 0 + int b1)" and m1: "0 \<le> m1"
    and u1: "m1 * 2 ^ b1 \<le> 2 * s"
    using s by (rule round53_crude)
  have m1R: "0 \<le> m1 * R" using m1 R by simp
  obtain m2 b2 where f2: "round53 (m1 * R, int b1 - int k) = (m2, int b1 - int k + int b2)"
    and m2: "0 \<le> m2" and u2: "m2 * 2 ^ b2 \<le> 2 * (m1 * R)"
    using m1R by (rule round53_crude)
  define V where "V = int_of_float64 (m2, int (b1 + b2) - int k)"
  have prod: "fmul (float64_of_int s) (R, - int k) = (m2, int (b1 + b2) - int k)"
    using f1 f2 by (simp add: fmul_def float64_of_int_def)
  have V: "0 \<le> V" "V * 2 ^ k \<le> m2 * 2 ^ (b1 + b2)"
    using int_of_float64_bound[OF m2, of "b1 + b2" k] by (simp_all add: V_def)
  have "m2 * 2 ^ (b1 + b2) = (m2 * 2 ^ b2) * 2 ^ b1" by (simp add: power_add)
  also have "\<dots> \<le> (2 * (m1 * R)) * 2 ^ b1" by (rule mult_right_mono[OF u2]) simp
  also have "\<dots> = 2 * R * (m1 * 2 ^ b1)" by simp
  also have "\<dots> \<le> 2 * R * (2 * s)" by (rule mult_left_mono[OF u1]) (use R in simp)
  also have "\<dots> = s * (4 * R)" by simp
  also have "\<dots> \<le> s * 2 ^ k" by (rule mult_left_mono[OF small s])
  finally have "V * 2 ^ k \<le> s * 2 ^ k" using V(2) by linarith
  then have "V \<le> s" by simp
  then show ?thesis using V(1) prod by (simp add: V_def)
qed

lemma rank_discount_bounds:
  assumes "0 \<le> s"
  shows "0 \<le> int_of_float64 (fmul (float64_of_int s) (getRankDiscountRate rank))
       \<and> int_of_float64 (fmul (float64_of_int s) (getRankDiscountRate rank)) \<le> s"
proof -
  have g: "getRankDiscountRate ''Gold'' = (7205759403792794, - int 57)"
    by (simp add: getRankDiscountRate_def)
  have sv: "getRankDiscountRate ''Silver'' = (8646911284551352, - int 58)"
    by (simp add: getRankDiscountRate_def)
  have n: "rank \<noteq> ''Gold'' \<Longrightarrow> rank \<noteq> ''Silver'' \<Longrightarrow> getRankDiscountRate rank = (0, - int 0)"
    by (simp add: getRankDiscountRate_def)
  consider "rank = ''Gold''" | "rank = ''Silver''" | "rank \<noteq> ''Gold''" "rank \<noteq> ''Silver''"
    by blast
  then show ?thesis
  proof cases
    case 1
    show ?thesis unfolding 1 g by (rule rank_discount_crude[OF assms]) simp_all
  next
    case 2
    show ?thesis unfolding 2 sv by (rule rank_discount_crude[OF assms]) simp_all
  next
    case 3
    show ?thesis unfolding n[OF 3] by (rule rank_discount_crude[OF assms]) simp_all
  qed
qed

lemma trunc_of_rounded:
  fixes q' m K :: int
  assumes b: "1 \<le> b" "b \<le> k"
    and up: "q' * 2 ^ b \<le> m + 2 ^ (b - 1)" and down: "m \<le> q' * 2 ^ b + 2 ^ (b - 1)"
    and lo: "K * 2 ^ k < m + 2 ^ (b - 1)" and hi: "m + 2 ^ (b - 1) < (K + 1) * 2 ^ k"
  shows "q' div 2 ^ (k - b) = K"
proof -
  define p :: int where "p = 2 ^ b"
  define h :: int where "h = 2 ^ (b - 1)"
  define d :: int where "d = 2 ^ (k - b)"
  have ppos: "0 < p" and dpos: "0 < d" by (simp_all add: p_def d_def)
  have p2: "p = 2 * h" using b(1) by (simp add: p_def h_def power_eq_if)
  have pk: "(2::int) ^ k = d * p" using b(2) by (simp add: p_def d_def flip: power_add)
  have "K * d * p < m + h" using lo by (simp add: pk h_def mult.assoc)
  also have "\<dots> \<le> q' * p + 2 * h" using down by (simp add: p_def h_def)
  also have "\<dots> = (q' + 1) * p" by (simp add: p2 distrib_right)
  finally have "K * d < q' + 1" using ppos by (simp only: mult_less_cancel_right_pos)
  then have l: "0 \<le> q' - K * d" by simp
  have "q' * p \<le> m + h" using up by (simp add: p_def h_def)
  also have "\<dots> < (K + 1) * d * p" using hi by (simp add: pk h_def mult.assoc)
  finally have "q' < (K + 1) * d" using ppos by (simp only: mult_less_cancel_right_pos)
  then have u: "q' - K * d < d" by (simp add: distrib_right)
  have "q' = d * K + (q' - K * d)" by simp
  then have "q' div d = K" using l u by (rule int_div_pos_eq)
  then show ?thesis by (simp add: d_def)
qed

lemma rank_discount_rounded:
  fixes s R K :: int
  assumes s: "0 \<le> s" "s < 2 ^ 51" and R: "0 < R" "R < 2 ^ 53" and k: "53 \<le> k"
    and K0: "s * R < 2 ^ 53 \<Longrightarrow> K = 0"
    and Kb: "\<And>h. 1 \<le> h \<Longrightarrow> 2 * h * 2 ^ 52 \<le> s * R \<Longrightarrow> s * R < 2 * h * 2 ^ 53
                \<Longrightarrow> K * 2 ^ k < s * R + h \<and> s * R + h < (K + 1) * 2 ^ k"
  shows "int_of_float64 (fmul (float64_of_int s) (R, - int k)) = K"
proof -
  have "\<bar>s\<bar> < 2 ^ 53" using s by simp
  then have f: "float64_of_int s = (s, 0)" by (simp add: float64_of_int_def round53_small)
  have prod: "fmul (float64_of_int s) (R, - int k) = round53 (s * R, - int k)"
    by (simp add: f fmul_def)
  have sR0: "0 \<le> s * R" using s R by simp
  show ?thesis
  proof (cases "s * R < 2 ^ 53")
    case True
    then have "\<bar>s * R\<bar> < 2 ^ 53" using sR0 by simp
    then have r: "round53 (s * R, - int k) = (s * R, - int k)" by (rule round53_small)
    have "(2::int) ^ 53 \<le> 2 ^ k" by (rule power_increasing) (use k in simp_all)
    then have "s * R < 2 ^ k" using True by linarith
    then have "s * R div 2 ^ k = 0" using sR0 by (simp add: div_pos_pos_trivial)
    then have "int_of_float64 (s * R, - int k) = 0"
      using k sR0 by (simp add: int_of_float64_def)
    then show ?thesis using K0[OF True] by (simp add: prod r)
  next
    case False
    then have "2 ^ 53 \<le> s * R" by simp
    then obtain b q' where r: "round53 (s * R, - int k) = (q', - int k + int b)" and b1: "1 \<le> b"
      and lo: "2 ^ (b + 52) \<le> s * R" and hi: "s * R < 2 ^ (b + 53)" and q0: "0 \<le> q'"
      and up: "q' * 2 ^ b \<le> s * R + 2 ^ (b - 1)" and down: "s * R \<le> q' * 2 ^ b + 2 ^ (b - 1)"
      by (rule round53_big)
    define h :: int where "h = 2 ^ (b - 1)"
    have h1: "1 \<le> h" by (simp add: h_def)
    have pb: "(2::int) ^ b = 2 * h" using b1 by (simp add: h_def power_eq_if)
    have lo': "2 * h * 2 ^ 52 \<le> s * R" using lo by (simp add: power_add pb)
    have hi': "s * R < 2 * h * 2 ^ 53" using hi by (simp add: power_add pb)
    have "s * R \<le> s * 2 ^ 53" by (rule mult_left_mono) (use s R in simp_all)
    also have "\<dots> < 2 ^ 51 * 2 ^ 53" by (rule mult_strict_right_mono) (use s in simp_all)
    finally have "s * R < 2 ^ 104" by simp
    with lo have "(2::int) ^ (b + 52) < 2 ^ 104" by linarith
    then have "b + 52 < 104" by (rule power_less_imp_less_exp[rotated]) simp
    then have bk: "b \<le> k" using k by simp
    have e: "- int k + int b < 0 \<or> b = k" using bk by linarith
    from Kb[OF h1 lo' hi'] have
      Klo: "K * 2 ^ k < s * R + 2 ^ (b - 1)" and Khi: "s * R + 2 ^ (b - 1) < (K + 1) * 2 ^ k"
      by (simp_all add: h_def)
    have qd: "q' div 2 ^ (k - b) = K"
      using b1 bk up down Klo Khi by (rule trunc_of_rounded)
    have sg: "sgn q' * (q' div 2 ^ (k - b)) = q' div 2 ^ (k - b)"
    proof (cases "q' = 0")
      case True then show ?thesis by simp
    next
      case False with q0 have "sgn q' = 1" by simp
      then show ?thesis by simp
    qed
    have nn: "nat (int k - int b) = k - b" using bk by (simp add: nat_diff_distrib')
    have "int_of_float64 (q', - int k + int b) = q' div 2 ^ (k - b)"
    proof (cases "b = k")
      case True
      then show ?thesis by (simp add: int_of_float64_def)
    next
      case False
      then have "- int k + int b < 0" using e by simp
      then show ?thesis using q0 sg by (simp add: int_of_float64_def nn)
    qed
    then show ?thesis using qd by (simp add: prod r)
  qed
qed

lemma rank_discount_Gold_exact:
  assumes "0 \<le> s" "s < 2 ^ 51"
  shows "int_of_float64 (fmul (float64_of_int s) (getRankDiscountRate ''Gold'')) = s * 5 div 100"
proof -
  define K where "K = s div 20"
  define r where "r = s mod 20"
  have sK: "s = 20 * K + r" unfolding K_def r_def by (rule mult_div_mod_eq[symmetric])
  have r: "0 \<le> r" "r < 20"
    unfolding r_def by (rule pos_mod_sign, simp) (rule pos_mod_bound, simp)
  have s': "s < 2251799813685248" using assms(2) by simp
  have g: "getRankDiscountRate ''Gold'' = (7205759403792794, - int 57)"
    by (simp add: getRankDiscountRate_def)
  have "int_of_float64 (fmul (float64_of_int s) (7205759403792794, - int 57)) = K"
  proof (rule rank_discount_rounded[OF assms])
    show "(0::int) < 7205759403792794" by simp
    show "(7205759403792794::int) < 2 ^ 53" by simp
    show "(53::nat) \<le> 57" by simp
    show "K = 0" if "s * 7205759403792794 < 2 ^ 53"
      using that sK r assms(1) by simp
    show "K * 2 ^ 57 < s * 7205759403792794 + h \<and> s * 7205759403792794 + h < (K + 1) * 2 ^ 57"
      if "1 \<le> h" "2 * h * 2 ^ 52 \<le> s * 7205759403792794" "s * 7205759403792794 < 2 * h * 2 ^ 53"
      for h
      using that sK r assms(1) s' by simp
  qed
  moreover have "s * 5 div 100 = K" unfolding K_def by simp
  ultimately show ?thesis unfolding g by simp
qed

lemma rank_discount_Silver_exact:
  assumes "0 \<le> s" "s < 2 ^ 51"
  shows "int_of_float64 (fmul (float64_of_int s) (getRankDiscountRate ''Silver'')) = s * 3 div 100"
proof -
  define K where "K = s * 3 div 100"
  define r where "r = s * 3 mod 100"
  have sK: "s * 3 = 100 * K + r" unfolding K_def r_def by (rule mult_div_mod_eq[symmetric])
  have r: "0 \<le> r" "r < 100"
    unfolding r_def by (rule pos_mod_sign, simp) (rule pos_mod_bound, simp)
  have s': "s < 2251799813685248" using assms(2) by simp
  have g: "getRankDiscountRate ''Silver'' = (8646911284551352, - int 58)"
    by (simp add: getRankDiscountRate_def)
  have "int_of_float64 (fmul (float64_of_int s) (8646911284551352, - int 58)) = K"
  proof (rule rank_discount_rounded[OF assms])
    show "(0::int) < 8646911284551352" by simp
    show "(8646911284551352::int) < 2 ^ 53" by simp
    show "(53::nat) \<le> 58" by simp
    show "K = 0" if "s * 8646911284551352 < 2 ^ 53"
      using that sK r assms(1) by simp
    show "K * 2 ^ 58 < s * 8646911284551352 + h \<and> s * 8646911284551352 + h < (K + 1) * 2 ^ 58"
      if "1 \<le> h" "2 * h * 2 ^ 52 \<le> s * 8646911284551352" "s * 8646911284551352 < 2 * h * 2 ^ 53"
      for h
      using that sK r assms(1) s' by simp
  qed
  then show ?thesis unfolding g K_def .
qed

lemma rank_discount_other:
  assumes "rank \<noteq> ''Gold''" "rank \<noteq> ''Silver''"
  shows "int_of_float64 (fmul (float64_of_int s) (getRankDiscountRate rank)) = 0"
proof -
  have "getRankDiscountRate rank = (0, 0)" using assms by (simp add: getRankDiscountRate_def)
  then have "fmul (float64_of_int s) (getRankDiscountRate rank) = (0, snd (float64_of_int s))"
    by (simp add: fmul_def round53_small)
  then show ?thesis by (simp add: int_of_float64_def)
qed

lemma bit_length_eq:
  assumes "2 ^ k \<le> n" "n < 2 ^ Suc k"
  shows "bit_length n = Suc k"
proof -
  have npos: "0 < n" using assms(1) by (metis less_le_trans zero_less_numeral zero_less_power)
  from bit_length_bounds[OF npos] have
    lo: "2 ^ (bit_length n - 1) \<le> n" and hi: "n < 2 ^ bit_length n" by simp_all
  have "(2::nat) ^ k < 2 ^ bit_length n" using assms(1) hi by linarith
  then have a: "k < bit_length n" by (rule power_less_imp_less_exp[rotated]) simp
  have "(2::nat) ^ (bit_length n - 1) < 2 ^ Suc k" using assms(2) lo by linarith
  then have "bit_length n - 1 < Suc k" by (rule power_less_imp_less_exp[rotated]) simp
  with a show ?thesis by linarith
qed

lemma charge_rankDiscountAmount:
  "rankDiscountAmount (computeCharge rank coupon subtotal pts) =
     int_of_float64 (fmul (float64_of_int subtotal) (getRankDiscountRate rank))"
  by (simp add: computeCharge_def Let_def)

lemma gold_example_product:
  "fmul (float64_of_int 7000000000000019) (getRankDiscountRate ''Gold'')
     = (5600000000000016, - 4)"
proof -
  have f: "float64_of_int 7000000000000019 = (7000000000000019, 0)"
    by (simp add: float64_of_int_def round53_small)
  have g: "getRankDiscountRate ''Gold'' = (7205759403792794, - 57)"
    by (simp add: getRankDiscountRate_def)
  have bl: "bit_length 50440315826549694909428672063086 = Suc 105"
    by (rule bit_length_eq) simp_all
  have "round53 (50440315826549694909428672063086, - 57) = (5600000000000016, - 4)"
    unfolding round53_def by (simp add: bl Let_def)
  then show ?thesis by (simp add: f g fmul_def)
qed

lemma gold_example:
  "int_of_float64 (fmul (float64_of_int 7000000000000019) (getRankDiscountRate ''Gold''))
     = 350000000000001"
  unfolding gold_example_product by (simp add: int_of_float64_def)

subsection \<open>64-bit arithmetic\<close>

lemma wrap64_id:
  assumes "- (2 ^ 63) \<le> x" "x < 2 ^ 63"
  shows "wrap64 x = x"
proof -
  have "0 \<le> x + 2 ^ 63" and "x + 2 ^ 63 < 2 ^ 64" using assms by simp_all
  then have "(x + 2 ^ 63) mod 2 ^ 64 = x + 2 ^ 63" by (rule mod_pos_pos_trivial)
  then show ?thesis unfolding wrap64_def by simp
qed

lemma wrap64_range: "- (2 ^ 63) \<le> wrap64 x" "wrap64 x < 2 ^ 63"
proof -
  have "0 \<le> (x + 2 ^ 63) mod 2 ^ 64" by (rule pos_mod_sign) simp
  then show "- (2 ^ 63) \<le> wrap64 x" unfolding wrap64_def by simp
  have "(x + 2 ^ 63) mod 2 ^ 64 < 2 ^ 64" by (rule pos_mod_bound) simp
  then show "wrap64 x < 2 ^ 63" unfolding wrap64_def by simp
qed

lemma add64_id: "- (2 ^ 63) \<le> a + b \<Longrightarrow> a + b < 2 ^ 63 \<Longrightarrow> add64 a b = a + b"
  unfolding add64_def by (rule wrap64_id)

lemma sub64_id: "- (2 ^ 63) \<le> a - b \<Longrightarrow> a - b < 2 ^ 63 \<Longrightarrow> sub64 a b = a - b"
  unfolding sub64_def by (rule wrap64_id)

lemma mul64_id: "- (2 ^ 63) \<le> a * b \<Longrightarrow> a * b < 2 ^ 63 \<Longrightarrow> mul64 a b = a * b"
  unfolding mul64_def by (rule wrap64_id)

lemma sdiv_nonneg: "0 \<le> a \<Longrightarrow> 0 < b \<Longrightarrow> a sdiv b = a div (b::int)"
  by (cases "a = 0") (simp_all add: signed_divide_int_def)

lemma sdiv_100_lower:
  assumes "- (2 ^ 63) \<le> (v::int)"
  shows "- (2 ^ 61) \<le> v sdiv 100"
proof (cases "0 \<le> v")
  case True
  then have "v sdiv 100 = v div 100" by (simp add: sdiv_nonneg)
  moreover have "0 \<le> v div 100" using True by (simp add: pos_imp_zdiv_nonneg_iff)
  ultimately show ?thesis by simp
next
  case False
  then have neg: "v < 0" by simp
  then have e: "v sdiv 100 = - ((- v) div 100)" by (simp add: signed_divide_int_def)
  have "- v \<le> 2 ^ 63" using assms by simp
  then have "(- v) div 100 \<le> 2 ^ 63 div 100" by (rule zdiv_mono1) simp
  also have "\<dots> \<le> (2 ^ 61 :: int)" by simp
  finally show ?thesis unfolding e by simp
qed

subsection \<open>The stages of the charge computation\<close>

lemma validate_items_quantities:
  "validate_items st rng i items acc = Inr subtotal \<Longrightarrow> \<forall>item \<in> set items. 0 < item_Quantity item"
  by (induction items arbitrary: i acc)
     (auto simp: Let_def split: if_splits option.splits)

lemma spec_lineSubtotal_nonneg:
  assumes "\<forall>pid p. prods pid = Some p \<longrightarrow> 0 \<le> Price p"
    and "\<forall>item \<in> set items. 0 < item_Quantity item"
  shows "0 \<le> spec_lineSubtotal prods items"
  using assms(2)
proof (induction items)
  case Nil
  show ?case by simp
next
  case (Cons item rest)
  then have r: "0 \<le> spec_lineSubtotal prods rest" and q: "0 < item_Quantity item" by simp_all
  show ?case
  proof (cases "prods (item_ProductID item)")
    case None
    then show ?thesis using r by simp
  next
    case (Some p)
    with assms(1) have "0 \<le> Price p" by blast
    then have "0 \<le> Price p * item_Quantity item" using q by simp
    then show ?thesis using r Some by simp
  qed
qed

text \<open>
  While the exact sum stays below \<open>2 ^ 63\<close>, the 64-bit subtotal of the validation loop is
  the line subtotal of the specification.
\<close>

lemma validate_items_exact:
  assumes prices: "\<forall>pid p. products st pid = Some p \<longrightarrow> 0 \<le> Price p"
    and "validate_items st rng i items acc = Inr subtotal"
    and "0 \<le> acc" and "acc + spec_lineSubtotal (products st) items < 2 ^ 63"
  shows "subtotal = acc + spec_lineSubtotal (products st) items"
  using assms(2-)
proof (induction items arbitrary: i acc)
  case Nil
  then show ?case by simp
next
  case (Cons item rest)
  from Cons.prems(1) obtain product where
    q: "0 < item_Quantity item" and p: "products st (item_ProductID item) = Some product"
    and rec: "validate_items st rng (Suc i) rest
                (add64 acc (mul64 (Price product) (item_Quantity item))) = Inr subtotal"
    by (auto simp: Let_def split: if_splits option.splits)
  let ?x = "Price product * item_Quantity item"
  from prices p have "0 \<le> Price product" by blast
  then have x0: "0 \<le> ?x" using q by simp
  have "\<forall>item \<in> set rest. 0 < item_Quantity item" using rec by (rule validate_items_quantities)
  with prices have r0: "0 \<le> spec_lineSubtotal (products st) rest"
    by (rule spec_lineSubtotal_nonneg)
  have total: "acc + (?x + spec_lineSubtotal (products st) rest) < 2 ^ 63"
    using Cons.prems(3) p by simp
  have "?x < 2 ^ 63" using total r0 Cons.prems(2) by linarith
  then have m: "mul64 (Price product) (item_Quantity item) = ?x"
    using x0 by (intro mul64_id) simp_all
  have "acc + ?x < 2 ^ 63" using total r0 by linarith
  then have a: "add64 acc ?x = acc + ?x"
    using x0 Cons.prems(2) by (intro add64_id) simp_all
  have acc': "0 \<le> acc + ?x" using x0 Cons.prems(2) by simp
  have bound': "acc + ?x + spec_lineSubtotal (products st) rest < 2 ^ 63" using total by simp
  from rec have "validate_items st rng (Suc i) rest (acc + ?x) = Inr subtotal"
    by (simp only: m a)
  from Cons.IH[OF this acc' bound'] show ?case using p by simp
qed

lemma calculateCouponDiscount_le:
  "0 \<le> baseAmount \<Longrightarrow> calculateCouponDiscount coupon baseAmount \<le> baseAmount"
  by (simp add: calculateCouponDiscount_def Let_def split: option.splits)

lemma calculateCouponDiscount_lower:
  assumes "\<forall>k. coupon = Some k \<longrightarrow> - (2 ^ 61) \<le> Amount k" and "0 \<le> baseAmount"
  shows "- (2 ^ 61) \<le> calculateCouponDiscount coupon baseAmount"
proof (cases coupon)
  case None
  then show ?thesis by (simp add: calculateCouponDiscount_def)
next
  case (Some k)
  with assms(1) have a: "- (2 ^ 61) \<le> Amount k" by simp
  have "- (2 ^ 63) \<le> mul64 baseAmount (Amount k)" unfolding mul64_def by (rule wrap64_range)
  then have p: "- (2 ^ 61) \<le> mul64 baseAmount (Amount k) sdiv 100" by (rule sdiv_100_lower)
  have b: "- (2 ^ 61) \<le> baseAmount" using assms(2) by simp
  show ?thesis
    using a p b Some by (simp add: calculateCouponDiscount_def Let_def)
qed

lemma charge_fields:
  "discountedSubtotal (computeCharge rank coupon subtotal pts)
     = sub64 subtotal (rankDiscountAmount (computeCharge rank coupon subtotal pts))"
  "tax (computeCharge rank coupon subtotal pts)
     = discountedSubtotal (computeCharge rank coupon subtotal pts) sdiv 10"
  "subtotalWithTax (computeCharge rank coupon subtotal pts)
     = add64 (discountedSubtotal (computeCharge rank coupon subtotal pts))
         (tax (computeCharge rank coupon subtotal pts))"
  "shippingFee (computeCharge rank coupon subtotal pts)
     = (if rank \<noteq> ''Gold'' \<and> subtotalWithTax (computeCharge rank coupon subtotal pts) < 5000
        then 500 else 0)"
  "couponDiscountAmount (computeCharge rank coupon subtotal pts)
     = calculateCouponDiscount coupon (subtotalWithTax (computeCharge rank coupon subtotal pts))"
  "afterCouponAmount (computeCharge rank coupon subtotal pts)
     = sub64 (subtotalWithTax (computeCharge rank coupon subtotal pts))
         (couponDiscountAmount (computeCharge rank coupon subtotal pts))"
  "afterPointsAmount (computeCharge rank coupon subtotal pts)
     = max 0 (sub64 (add64 (afterCouponAmount (computeCharge rank coupon subtotal pts))
                       (shippingFee (computeCharge rank coupon subtotal pts))) pts)"
  "totalPrice (computeCharge rank coupon subtotal pts)
     = afterPointsAmount (computeCharge rank coupon subtotal pts)"
  "earnedPoints (computeCharge rank coupon subtotal pts)
     = totalPrice (computeCharge rank coupon subtotal pts) sdiv 100"
  by (simp_all add: computeCharge_def Let_def max_def)

lemma charge_no_coupon_fields:
  "subtotalWithTax (computeCharge rank coupon subtotal pts)
     = subtotalWithTax (computeCharge rank None subtotal pts)"
  "shippingFee (computeCharge rank coupon subtotal pts)
     = shippingFee (computeCharge rank None subtotal pts)"
  by (simp_all add: computeCharge_def Let_def)

lemma totalPrice_nonneg: "0 \<le> totalPrice (computeCharge rank coupon subtotal pts)"
  by (simp add: charge_fields(7,8))

text \<open>Up to the tax-inclusive amount no operation wraps when \<open>0 \<le> subtotal \<le> 2 ^ 61\<close>.\<close>

lemma charge_exact_stages:
  assumes "0 \<le> subtotal" "subtotal \<le> 2 ^ 61"
  shows "discountedSubtotal (computeCharge rank coupon subtotal pts)
           = subtotal - rankDiscountAmount (computeCharge rank coupon subtotal pts)"
    and "0 \<le> discountedSubtotal (computeCharge rank coupon subtotal pts)"
    and "tax (computeCharge rank coupon subtotal pts)
           = discountedSubtotal (computeCharge rank coupon subtotal pts) div 10"
    and "subtotalWithTax (computeCharge rank coupon subtotal pts)
           = discountedSubtotal (computeCharge rank coupon subtotal pts)
             + tax (computeCharge rank coupon subtotal pts)"
    and "0 \<le> subtotalWithTax (computeCharge rank coupon subtotal pts)"
    and "subtotalWithTax (computeCharge rank coupon subtotal pts) \<le> 2 ^ 62"
proof -
  let ?c = "computeCharge rank coupon subtotal pts"
  from rank_discount_bounds[OF assms(1), of rank] have
    rd: "0 \<le> rankDiscountAmount ?c" "rankDiscountAmount ?c \<le> subtotal"
    by (simp_all add: charge_rankDiscountAmount)
  have "sub64 subtotal (rankDiscountAmount ?c) = subtotal - rankDiscountAmount ?c"
    using rd assms by (intro sub64_id) simp_all
  then show ds: "discountedSubtotal ?c = subtotal - rankDiscountAmount ?c"
    by (simp only: charge_fields(1))
  show d0: "0 \<le> discountedSubtotal ?c" using rd ds by simp
  have d1: "discountedSubtotal ?c \<le> 2 ^ 61" using rd ds assms(2) by simp
  show tx: "tax ?c = discountedSubtotal ?c div 10"
    using d0 by (simp add: charge_fields(2) sdiv_nonneg)
  have t0: "0 \<le> discountedSubtotal ?c div 10" using d0 by (simp add: pos_imp_zdiv_nonneg_iff)
  have "discountedSubtotal ?c div 10 \<le> discountedSubtotal ?c div 1"
    by (rule zdiv_mono2) (use d0 in simp_all)
  then have t1: "discountedSubtotal ?c div 10 \<le> discountedSubtotal ?c" by simp
  have "add64 (discountedSubtotal ?c) (tax ?c) = discountedSubtotal ?c + tax ?c"
    unfolding tx using d0 d1 t0 t1 by (intro add64_id) simp_all
  then show sw: "subtotalWithTax ?c = discountedSubtotal ?c + tax ?c"
    by (simp only: charge_fields(3))
  show "0 \<le> subtotalWithTax ?c" using sw tx d0 t0 by simp
  show "subtotalWithTax ?c \<le> 2 ^ 62" using sw tx d1 t1 by simp
qed

text \<open>
  With a coupon whose amount is at least \<open>- 2 ^ 61\<close> the subtraction of the discount and
  the addition of the shipping fee do not wrap either.
\<close>

lemma charge_exact_after_coupon:
  assumes "0 \<le> subtotal" "subtotal \<le> 2 ^ 61"
    and "\<forall>k. coupon = Some k \<longrightarrow> - (2 ^ 61) \<le> Amount k"
  shows "couponDiscountAmount (computeCharge rank coupon subtotal pts)
           \<le> subtotalWithTax (computeCharge rank coupon subtotal pts)"
    and "afterCouponAmount (computeCharge rank coupon subtotal pts)
           = subtotalWithTax (computeCharge rank coupon subtotal pts)
             - couponDiscountAmount (computeCharge rank coupon subtotal pts)"
    and "0 \<le> afterCouponAmount (computeCharge rank coupon subtotal pts)"
    and "add64 (afterCouponAmount (computeCharge rank coupon subtotal pts))
               (shippingFee (computeCharge rank coupon subtotal pts))
           = afterCouponAmount (computeCharge rank coupon subtotal pts)
             + shippingFee (computeCharge rank coupon subtotal pts)"
    and "0 \<le> shippingFee (computeCharge rank coupon subtotal pts)"
    and "afterCouponAmount (computeCharge rank coupon subtotal pts) \<le> 2 ^ 62 + 2 ^ 61"
proof -
  let ?c = "computeCharge rank coupon subtotal pts"
  note st = charge_exact_stages[OF assms(1,2), of rank coupon pts]
  have w0: "0 \<le> subtotalWithTax ?c" and w1: "subtotalWithTax ?c \<le> 2 ^ 62" by (rule st)+
  show le: "couponDiscountAmount ?c \<le> subtotalWithTax ?c"
    using calculateCouponDiscount_le[OF w0, of coupon] by (simp only: charge_fields(5))
  have lo: "- (2 ^ 61) \<le> couponDiscountAmount ?c"
    using calculateCouponDiscount_lower[OF assms(3) w0] by (simp only: charge_fields(5))
  have "sub64 (subtotalWithTax ?c) (couponDiscountAmount ?c)
          = subtotalWithTax ?c - couponDiscountAmount ?c"
    using le lo w1 by (intro sub64_id) simp_all
  then show ac: "afterCouponAmount ?c = subtotalWithTax ?c - couponDiscountAmount ?c"
    by (simp only: charge_fields(6))
  show a0: "0 \<le> afterCouponAmount ?c" using ac le by simp
  show a1: "afterCouponAmount ?c \<le> 2 ^ 62 + 2 ^ 61" using ac lo w1 by simp
  have sf: "shippingFee ?c = 0 \<or> shippingFee ?c = 500" by (simp add: charge_fields(4))
  then show "0 \<le> shippingFee ?c" by auto
  show "add64 (afterCouponAmount ?c) (shippingFee ?c) = afterCouponAmount ?c + shippingFee ?c"
    using a0 a1 sf by (intro add64_id) auto
qed

text \<open>The clamp at 0 and the points: no wrap when the points requested fit 64 bits.\<close>

lemma charge_exact_total:
  assumes "0 \<le> subtotal" "subtotal \<le> 2 ^ 61"
    and "\<forall>k. coupon = Some k \<longrightarrow> - (2 ^ 61) \<le> Amount k"
    and "- (2 ^ 60) \<le> pts" "pts < 2 ^ 63"
  shows "totalPrice (computeCharge rank coupon subtotal pts)
           = max 0 (afterCouponAmount (computeCharge rank coupon subtotal pts)
                    + shippingFee (computeCharge rank coupon subtotal pts) - pts)"
proof -
  let ?c = "computeCharge rank coupon subtotal pts"
  note ac = charge_exact_after_coupon[OF assms(1,2,3), of rank pts]
  have a0: "0 \<le> afterCouponAmount ?c" and a1: "afterCouponAmount ?c \<le> 2 ^ 62 + 2 ^ 61"
    and ad: "add64 (afterCouponAmount ?c) (shippingFee ?c)
               = afterCouponAmount ?c + shippingFee ?c"
    by (rule ac)+
  have sf: "shippingFee ?c = 0 \<or> shippingFee ?c = 500" by (simp add: charge_fields(4))
  have "sub64 (afterCouponAmount ?c + shippingFee ?c) pts
          = afterCouponAmount ?c + shippingFee ?c - pts"
    using a0 a1 sf assms(4,5) by (intro sub64_id) auto
  then show ?thesis by (simp only: charge_fields(8) charge_fields(7) ad)
qed

subsection \<open>The worked example of the pricing pipeline\<close>

lemmas int64_defs = add64_def sub64_def mul64_def wrap64_def

lemma test_cart_subtotal: "validate_items test_store test_range 0 test_cart 0 = Inr 4000"
  by (simp add: test_store_def test_stocks_def test_cart_def test_range_def
      getProductStock_def init_warehouses_def int64_defs)

lemma rank_discount_Normal_4000:
  "int_of_float64 (fmul (float64_of_int 4000) (getRankDiscountRate ''Normal'')) = 0"
proof -
  have "float64_of_int 4000 = (4000, 0)"
    by (simp add: float64_of_int_def round53_def)
  moreover have "getRankDiscountRate ''Normal'' = (0, 0)"
    by (simp add: getRankDiscountRate_def)
  moreover have "fmul (4000, 0) (0, 0) = (0, 0)"
    by (simp add: fmul_def round53_def)
  moreover have "int_of_float64 (0, 0) = 0"
    by (simp add: int_of_float64_def)
  ultimately show ?thesis by simp
qed

lemma sdiv_examples:
  "(4000::int) sdiv 10 = 400" "(4900::int) sdiv 100 = 49" "(3900::int) sdiv 100 = 39"
  "(3600::int) sdiv 100 = 36"
  by (simp_all add: signed_divide_int_def)

lemma charge_eval:
  assumes "int_of_float64 (fmul (float64_of_int s) (getRankDiscountRate rank)) = rd"
    and "sub64 s rd = ds" and "ds sdiv 10 = tx" and "add64 ds tx = swt"
    and "(if rank \<noteq> ''Gold'' \<and> swt < 5000 then 500 else 0) = sf"
    and "calculateCouponDiscount coupon swt = cd" and "sub64 swt cd = ac"
    and "max 0 (sub64 (add64 ac sf) pts) = ap" and "ap sdiv 100 = ep"
  shows "computeCharge rank coupon s pts =
    \<lparr> rankDiscountAmount = rd, discountedSubtotal = ds, tax = tx, subtotalWithTax = swt,
      shippingFee = sf, couponDiscountAmount = cd, afterCouponAmount = ac,
      afterPointsAmount = ap, totalPrice = ap, earnedPoints = ep \<rparr>"
  unfolding computeCharge_def Let_def assms(1) assms(2) assms(3) assms(4) assms(5)
    assms(6) assms(7) using assms(8,9) by (auto simp: max_def)

lemma test_cart_charge:
  "computeCharge ''Normal'' None 4000 0 =
    \<lparr> rankDiscountAmount = 0, discountedSubtotal = 4000, tax = 400, subtotalWithTax = 4400,
      shippingFee = 500, couponDiscountAmount = 0, afterCouponAmount = 4400,
      afterPointsAmount = 4900, totalPrice = 4900, earnedPoints = 49 \<rparr>"
  by (rule charge_eval)
     (simp_all add: rank_discount_Normal_4000 sdiv_examples calculateCouponDiscount_def
        int64_defs)

lemma test_cart_charge_FLAT1000:
  "computeCharge ''Normal'' (init_coupons ''FLAT1000'') 4000 0 =
    \<lparr> rankDiscountAmount = 0, discountedSubtotal = 4000, tax = 400, subtotalWithTax = 4400,
      shippingFee = 500, couponDiscountAmount = 1000, afterCouponAmount = 3400,
      afterPointsAmount = 3900, totalPrice = 3900, earnedPoints = 39 \<rparr>"
  by (rule charge_eval)
     (simp_all add: rank_discount_Normal_4000 sdiv_examples calculateCouponDiscount_def
        init_coupons_def int64_defs)

text \<open>
  C2. For the cart of two units at 1000 and one unit at 2000, bought by a user of rank
  Normal with no coupon and no points, the validation loop computes the subtotal 4000 and
  the charge computation gives tax 400, the tax-inclusive amount 4400, the shipping fee 500
  and the final charge 4900. With the coupon FLAT1000 the coupon discount is 1000, taken
  from the 4400, and the final charge is 3900.
\<close>

theorem pricing_worked_example:
  "validate_items test_store test_range 0 test_cart 0 = Inr 4000
   \<and> tax (computeCharge ''Normal'' None 4000 0) = 400
   \<and> subtotalWithTax (computeCharge ''Normal'' None 4000 0) = 4400
   \<and> shippingFee (computeCharge ''Normal'' None 4000 0) = 500
   \<and> totalPrice (computeCharge ''Normal'' None 4000 0) = 4900
   \<and> subtotalWithTax (computeCharge ''Normal'' (init_coupons ''FLAT1000'') 4000 0) = 4400
   \<and> couponDiscountAmount (computeCharge ''Normal'' (init_coupons ''FLAT1000'') 4000 0) = 1000
   \<and> afterCouponAmount (computeCharge ''Normal'' (init_coupons ''FLAT1000'') 4000 0) = 3400
   \<and> shippingFee (computeCharge ''Normal'' (init_coupons ''FLAT1000'') 4000 0) = 500
   \<and> totalPrice (computeCharge ''Normal'' (init_coupons ''FLAT1000'') 4000 0) = 3900"
  by (simp add: test_cart_subtotal test_cart_charge test_cart_charge_FLAT1000)

subsection \<open>The tier discount and floating point\<close>

text \<open>
  C4 (as amended). Every stage of the charge computation other than the tier discount is
  64-bit integer arithmetic. The tier discount is computed in binary64 as
  \<^verbatim>\<open>int(float64(subtotal) * rate)\<close>; for every subtotal \<open>s\<close> with \<open>0 \<le> s < 2 ^ 51\<close> and
  every rank it equals the integer \<open>s * p div 100\<close> for the percentage \<open>p\<close> of the tier table
  (5, 3 or 0), and then the discounted subtotal, the tax and the tax-inclusive amount are
  the exact integer expressions of the pipeline, the amount after the coupon and the final
  charge are the 64-bit difference and the clamped 64-bit sum of the pipeline, and the
  points earned are the final charge divided by 100. When moreover the amount of the
  coupon is at least \<open>- 2 ^ 61\<close> nothing wraps at the coupon, and when the points requested
  lie between \<open>- 2 ^ 60\<close> and \<open>2 ^ 63\<close> nothing wraps at all: the amount after the coupon
  and the final charge are the exact integer expressions too.
\<close>

theorem tier_discount_exact_below_2_51:
  assumes "0 \<le> s" "s < 2 ^ 51"
  shows "rankDiscountAmount (computeCharge rank coupon s pts) = s * spec_tierRatePercent rank div 100
    \<and> discountedSubtotal (computeCharge rank coupon s pts)
        = s - s * spec_tierRatePercent rank div 100
    \<and> tax (computeCharge rank coupon s pts)
        = discountedSubtotal (computeCharge rank coupon s pts) div 10
    \<and> subtotalWithTax (computeCharge rank coupon s pts)
        = discountedSubtotal (computeCharge rank coupon s pts)
          + tax (computeCharge rank coupon s pts)
    \<and> afterCouponAmount (computeCharge rank coupon s pts)
        = sub64 (subtotalWithTax (computeCharge rank coupon s pts))
            (couponDiscountAmount (computeCharge rank coupon s pts))
    \<and> totalPrice (computeCharge rank coupon s pts)
        = max 0 (sub64 (add64 (afterCouponAmount (computeCharge rank coupon s pts))
                          (shippingFee (computeCharge rank coupon s pts))) pts)
    \<and> earnedPoints (computeCharge rank coupon s pts)
        = totalPrice (computeCharge rank coupon s pts) div 100
    \<and> ((\<forall>k. coupon = Some k \<longrightarrow> - (2 ^ 61) \<le> Amount k) \<longrightarrow>
         afterCouponAmount (computeCharge rank coupon s pts)
           = subtotalWithTax (computeCharge rank coupon s pts)
             - couponDiscountAmount (computeCharge rank coupon s pts))
    \<and> ((\<forall>k. coupon = Some k \<longrightarrow> - (2 ^ 61) \<le> Amount k) \<and> - (2 ^ 60) \<le> pts \<and> pts < 2 ^ 63 \<longrightarrow>
         totalPrice (computeCharge rank coupon s pts)
           = max 0 (afterCouponAmount (computeCharge rank coupon s pts)
                    + shippingFee (computeCharge rank coupon s pts) - pts))"
proof -
  let ?c = "computeCharge rank coupon s pts"
  have "(2::int) ^ 51 \<le> 2 ^ 61" by simp
  with assms(2) have s61: "s \<le> 2 ^ 61" by linarith
  have rd: "rankDiscountAmount ?c = s * spec_tierRatePercent rank div 100"
  proof -
    consider "rank = ''Gold''" | "rank = ''Silver''" | "rank \<noteq> ''Gold''" "rank \<noteq> ''Silver''"
      by blast
    then show ?thesis
    proof cases
      case 1
      then show ?thesis
        using rank_discount_Gold_exact[OF assms]
        by (simp add: charge_rankDiscountAmount spec_tierRatePercent_def)
    next
      case 2
      then show ?thesis
        using rank_discount_Silver_exact[OF assms]
        by (simp add: charge_rankDiscountAmount spec_tierRatePercent_def)
    next
      case 3
      then show ?thesis
        using rank_discount_other[OF 3, of s]
        by (simp add: charge_rankDiscountAmount spec_tierRatePercent_def)
    qed
  qed
  note st = charge_exact_stages[OF assms(1) s61, of rank coupon pts]
  have ds: "discountedSubtotal ?c = s - s * spec_tierRatePercent rank div 100"
    using st(1) rd by simp
  note tx = st(3)
  note swt = st(4)
  note ac = charge_fields(6)[of rank coupon s pts]
  have tp: "totalPrice ?c = max 0 (sub64 (add64 (afterCouponAmount ?c) (shippingFee ?c)) pts)"
    by (simp only: charge_fields(8) charge_fields(7))
  have "0 \<le> totalPrice ?c" by (rule totalPrice_nonneg)
  then have ep: "earnedPoints ?c = totalPrice ?c div 100"
    by (simp add: charge_fields(9) sdiv_nonneg)
  have x1: "(\<forall>k. coupon = Some k \<longrightarrow> - (2 ^ 61) \<le> Amount k) \<longrightarrow>
         afterCouponAmount ?c = subtotalWithTax ?c - couponDiscountAmount ?c"
    using charge_exact_after_coupon(2)[OF assms(1) s61, of coupon rank pts] by blast
  have x2: "(\<forall>k. coupon = Some k \<longrightarrow> - (2 ^ 61) \<le> Amount k) \<and> - (2 ^ 60) \<le> pts \<and> pts < 2 ^ 63 \<longrightarrow>
         totalPrice ?c = max 0 (afterCouponAmount ?c + shippingFee ?c - pts)"
    using charge_exact_total[OF assms(1) s61, of coupon pts rank] by blast
  from rd ds tx swt ac tp ep x1 x2 show ?thesis by blast
qed

theorem tier_discount_exact_witness:
  "(0::int) \<le> 4000 \<and> (4000::int) < 2 ^ 51
   \<and> rankDiscountAmount (computeCharge ''Gold'' None 4000 0) = 200
   \<and> discountedSubtotal (computeCharge ''Gold'' None 4000 0) = 3800
   \<and> tax (computeCharge ''Gold'' None 4000 0) = 380
   \<and> subtotalWithTax (computeCharge ''Gold'' None 4000 0) = 4180
   \<and> afterCouponAmount (computeCharge ''Gold'' None 4000 0) = 4180
   \<and> totalPrice (computeCharge ''Gold'' None 4000 0) = 4180
   \<and> earnedPoints (computeCharge ''Gold'' None 4000 0) = 41"
proof -
  have cd: "couponDiscountAmount (computeCharge ''Gold'' None 4000 0) = 0"
    by (simp add: charge_fields(5) calculateCouponDiscount_def)
  have sf: "shippingFee (computeCharge ''Gold'' None 4000 0) = 0"
    by (simp add: charge_fields(4))
  show ?thesis
    using tier_discount_exact_below_2_51[of 4000 "''Gold''" None 0] cd sf
    by (simp add: spec_tierRatePercent_def int64_defs)
qed

text \<open>
  The claim as stated, for every subtotal, fails: for a Gold member and the subtotal
  7000000000000019 the binary64 product rounds up and the discount is 350000000000001,
  one more than the integer value of 5 percent.
\<close>

theorem tier_discount_rounding_counterexample:
  "rankDiscountAmount (computeCharge ''Gold'' None 7000000000000019 0) = 350000000000001
   \<and> 7000000000000019 * spec_tierRatePercent ''Gold'' div 100 = 350000000000000"
  by (simp add: charge_rankDiscountAmount gold_example spec_tierRatePercent_def)

subsection \<open>No negative amount\<close>

lemma test_cart_charge_FLAT1000_points:
  "computeCharge ''Normal'' (init_coupons ''FLAT1000'') 4000 5000 =
    \<lparr> rankDiscountAmount = 0, discountedSubtotal = 4000, tax = 400, subtotalWithTax = 4400,
      shippingFee = 500, couponDiscountAmount = 1000, afterCouponAmount = 3400,
      afterPointsAmount = 0, totalPrice = 0, earnedPoints = 0 \<rparr>"
  by (rule charge_eval)
     (simp_all add: rank_discount_Normal_4000 sdiv_examples calculateCouponDiscount_def
        init_coupons_def int64_defs)

lemma costly_cart_subtotal:
  "validate_items costly_store test_range 0 costly_cart 0 = Inr (- 1000)"
  by (simp add: costly_store_def costly_cart_def test_store_def test_stocks_def test_range_def
      getProductStock_def init_warehouses_def int64_defs)

lemma costly_cart_charge:
  "discountedSubtotal (computeCharge ''Normal'' None (- 1000) 0) = - 1000"
  "tax (computeCharge ''Normal'' None (- 1000) 0) = - 100"
  "subtotalWithTax (computeCharge ''Normal'' None (- 1000) 0) = - 1100"
proof -
  let ?c = "computeCharge ''Normal'' None (- 1000) 0"
  have "rankDiscountAmount ?c = 0"
    using rank_discount_other[of "''Normal''" "- 1000"] by (simp add: charge_rankDiscountAmount)
  then show ds: "discountedSubtotal ?c = - 1000"
    by (simp add: charge_fields(1) int64_defs)
  show tx: "tax ?c = - 100"
    by (simp add: charge_fields(2) ds signed_divide_int_def)
  show "subtotalWithTax ?c = - 1100"
    by (simp add: charge_fields(3) ds tx int64_defs)
qed

text \<open>
  C5 (as amended). When every product has a non-negative price, the cart passes the
  validation loop (so every quantity is positive) and the line subtotal of the
  specification, the sum of price times quantity, is at most \<open>2 ^ 61\<close>, then the subtotal
  of the handler is that sum, and for every rank, every coupon whose amount is at least
  \<open>- 2 ^ 61\<close> and all requested points below \<open>2 ^ 63\<close> the subtotal, the tier-discounted
  subtotal, the tax-inclusive amount, the amount after the coupon, the amount after the
  points and the final charge are all non-negative; and when the requested points are at
  least the amount after the coupon plus the shipping fee, the final charge is exactly 0.
  The final charge itself, which is clamped at 0, is non-negative for every input.
\<close>

theorem charge_never_negative_in_range:
  assumes "\<forall>pid p. products st pid = Some p \<longrightarrow> 0 \<le> Price p"
    and "validate_items st rng 0 items 0 = Inr subtotal"
    and "spec_lineSubtotal (products st) items \<le> 2 ^ 61"
    and "\<forall>k. coupon = Some k \<longrightarrow> - (2 ^ 61) \<le> Amount k"
    and "pts < 2 ^ 63"
  shows "subtotal = spec_lineSubtotal (products st) items
    \<and> 0 \<le> subtotal
    \<and> 0 \<le> discountedSubtotal (computeCharge rank coupon subtotal pts)
    \<and> 0 \<le> subtotalWithTax (computeCharge rank coupon subtotal pts)
    \<and> 0 \<le> afterCouponAmount (computeCharge rank coupon subtotal pts)
    \<and> 0 \<le> afterPointsAmount (computeCharge rank coupon subtotal pts)
    \<and> 0 \<le> totalPrice (computeCharge rank coupon subtotal pts)
    \<and> (afterCouponAmount (computeCharge rank coupon subtotal pts)
          + shippingFee (computeCharge rank coupon subtotal pts) \<le> pts
        \<longrightarrow> totalPrice (computeCharge rank coupon subtotal pts) = 0)
    \<and> 0 \<le> totalPrice (computeCharge rank' coupon' subtotal' pts')"
proof -
  let ?c = "computeCharge rank coupon subtotal pts"
  have "(2::int) ^ 61 < 2 ^ 63" by simp
  with assms(3) have "0 + spec_lineSubtotal (products st) items < 2 ^ 63" by linarith
  from validate_items_exact[OF assms(1,2) _ this]
  have eq: "subtotal = spec_lineSubtotal (products st) items" by simp
  have "\<forall>item \<in> set items. 0 < item_Quantity item"
    using assms(2) by (rule validate_items_quantities)
  with assms(1) have "0 \<le> spec_lineSubtotal (products st) items"
    by (rule spec_lineSubtotal_nonneg)
  then have s0: "0 \<le> subtotal" using eq by simp
  have s1: "subtotal \<le> 2 ^ 61" using eq assms(3) by simp
  note st = charge_exact_stages[OF s0 s1, of rank coupon pts]
  note ac = charge_exact_after_coupon[OF s0 s1 assms(4), of rank pts]
  have tp: "0 \<le> totalPrice ?c" by (rule totalPrice_nonneg)
  then have ap: "0 \<le> afterPointsAmount ?c" by (simp only: charge_fields(8))
  have z: "afterCouponAmount ?c + shippingFee ?c \<le> pts \<longrightarrow> totalPrice ?c = 0"
  proof
    assume le: "afterCouponAmount ?c + shippingFee ?c \<le> pts"
    have "0 \<le> afterCouponAmount ?c + shippingFee ?c" using ac(3) ac(5) by simp
    with le have "- (2 ^ 60) \<le> pts" by simp
    from charge_exact_total[OF s0 s1 assms(4) this assms(5), of rank]
    show "totalPrice ?c = 0" using le by simp
  qed
  have tp': "0 \<le> totalPrice (computeCharge rank' coupon' subtotal' pts')"
    by (rule totalPrice_nonneg)
  from eq s0 st(2) st(5) ac(3) ap tp z tp' show ?thesis by blast
qed

theorem charge_never_negative_in_range_witness:
  "validate_items test_store test_range 0 test_cart 0 = Inr 4000
   \<and> spec_lineSubtotal (products test_store) test_cart = 4000
   \<and> 0 \<le> afterCouponAmount (computeCharge ''Normal'' (init_coupons ''FLAT1000'') 4000 5000)
   \<and> afterCouponAmount (computeCharge ''Normal'' (init_coupons ''FLAT1000'') 4000 5000)
       + shippingFee (computeCharge ''Normal'' (init_coupons ''FLAT1000'') 4000 5000) \<le> 5000
   \<and> totalPrice (computeCharge ''Normal'' (init_coupons ''FLAT1000'') 4000 5000) = 0"
proof -
  have p: "\<forall>pid p. products test_store pid = Some p \<longrightarrow> 0 \<le> Price p"
    by (auto simp: test_store_def split: if_splits)
  have l: "spec_lineSubtotal (products test_store) test_cart = 4000"
    by (simp add: test_store_def test_cart_def)
  then have b: "spec_lineSubtotal (products test_store) test_cart \<le> 2 ^ 61" by simp
  have k: "\<forall>k. init_coupons ''FLAT1000'' = Some k \<longrightarrow> - (2 ^ 61) \<le> Amount k"
    by (simp add: init_coupons_def)
  have q: "(5000::int) < 2 ^ 63" by simp
  have a: "afterCouponAmount (computeCharge ''Normal'' (init_coupons ''FLAT1000'') 4000 5000) = 3400"
    and f: "shippingFee (computeCharge ''Normal'' (init_coupons ''FLAT1000'') 4000 5000) = 500"
    by (simp_all add: test_cart_charge_FLAT1000_points)
  show ?thesis
    using charge_never_negative_in_range[OF p test_cart_subtotal b k q, of "''Normal''"]
      test_cart_subtotal l a f by simp
qed

text \<open>
  The claim as stated, for every valid cart, fails: the subtotal is a 64-bit integer and
  wraps. With product 200 priced at 9223372036854775308, a non-negative price, the cart of
  two units passes the validation loop with the subtotal -1000, and for a user of rank
  Normal with no coupon and no points the tier-discounted subtotal is -1000, the tax -100
  and the tax-inclusive amount -1100.
\<close>

theorem charge_negative_after_wrap:
  "map_option Price (products costly_store 200) = Some 9223372036854775308
   \<and> map item_Quantity costly_cart = [2]
   \<and> validate_items costly_store test_range 0 costly_cart 0 = Inr (- 1000)
   \<and> discountedSubtotal (computeCharge ''Normal'' None (- 1000) 0) = - 1000
   \<and> tax (computeCharge ''Normal'' None (- 1000) 0) = - 100
   \<and> subtotalWithTax (computeCharge ''Normal'' None (- 1000) 0) = - 1100"
  by (simp add: costly_cart_subtotal costly_cart_charge)
     (simp add: costly_store_def costly_cart_def)

subsection \<open>The coupon discount\<close>

text \<open>
  C9. For every coupon and every base amount that is not negative the coupon discount is
  at most the base amount. In the charge computation the discount is computed from the
  tax-inclusive amount alone; the tax-inclusive amount and the shipping fee are the same
  with and without the coupon; the shipping fee is added after the discount is
  subtracted, in 64-bit arithmetic. For a subtotal between 0 and \<open>2 ^ 61\<close> and a coupon
  whose amount is at least \<open>- 2 ^ 61\<close> neither operation wraps, the discount is at most
  the tax-inclusive amount, and the amount before the points is at least the whole
  shipping fee.
\<close>

theorem coupon_discount_capped_shipping_untouched:
  "(0 \<le> baseAmount \<longrightarrow> calculateCouponDiscount coupon baseAmount \<le> baseAmount)
   \<and> couponDiscountAmount (computeCharge rank coupon subtotal pts)
       = calculateCouponDiscount coupon (subtotalWithTax (computeCharge rank coupon subtotal pts))
   \<and> subtotalWithTax (computeCharge rank coupon subtotal pts)
       = subtotalWithTax (computeCharge rank None subtotal pts)
   \<and> shippingFee (computeCharge rank coupon subtotal pts)
       = shippingFee (computeCharge rank None subtotal pts)
   \<and> totalPrice (computeCharge rank coupon subtotal pts)
       = max 0 (sub64 (add64 (sub64 (subtotalWithTax (computeCharge rank coupon subtotal pts))
                                (couponDiscountAmount (computeCharge rank coupon subtotal pts)))
                         (shippingFee (computeCharge rank coupon subtotal pts))) pts)
   \<and> (0 \<le> subtotal \<and> subtotal \<le> 2 ^ 61 \<and> (\<forall>k. coupon = Some k \<longrightarrow> - (2 ^ 61) \<le> Amount k) \<longrightarrow>
        couponDiscountAmount (computeCharge rank coupon subtotal pts)
          \<le> subtotalWithTax (computeCharge rank coupon subtotal pts)
        \<and> sub64 (subtotalWithTax (computeCharge rank coupon subtotal pts))
                (couponDiscountAmount (computeCharge rank coupon subtotal pts))
          = subtotalWithTax (computeCharge rank coupon subtotal pts)
            - couponDiscountAmount (computeCharge rank coupon subtotal pts)
        \<and> add64 (sub64 (subtotalWithTax (computeCharge rank coupon subtotal pts))
                       (couponDiscountAmount (computeCharge rank coupon subtotal pts)))
                (shippingFee (computeCharge rank coupon subtotal pts))
          = (subtotalWithTax (computeCharge rank coupon subtotal pts)
               - couponDiscountAmount (computeCharge rank coupon subtotal pts))
            + shippingFee (computeCharge rank coupon subtotal pts)
        \<and> shippingFee (computeCharge rank coupon subtotal pts)
          \<le> (subtotalWithTax (computeCharge rank coupon subtotal pts)
               - couponDiscountAmount (computeCharge rank coupon subtotal pts))
              + shippingFee (computeCharge rank coupon subtotal pts))"
proof -
  let ?c = "computeCharge rank coupon subtotal pts"
  have 1: "0 \<le> baseAmount \<longrightarrow> calculateCouponDiscount coupon baseAmount \<le> baseAmount"
    by (simp add: calculateCouponDiscount_le)
  note 2 = charge_fields(5)[of rank coupon subtotal pts]
  note 3 = charge_no_coupon_fields(1)[of rank coupon subtotal pts]
  note 4 = charge_no_coupon_fields(2)[of rank coupon subtotal pts]
  have 5: "totalPrice ?c
       = max 0 (sub64 (add64 (sub64 (subtotalWithTax ?c) (couponDiscountAmount ?c))
                         (shippingFee ?c)) pts)"
    by (simp only: charge_fields(8) charge_fields(7) charge_fields(6))
  have 6: "0 \<le> subtotal \<and> subtotal \<le> 2 ^ 61 \<and> (\<forall>k. coupon = Some k \<longrightarrow> - (2 ^ 61) \<le> Amount k) \<longrightarrow>
        couponDiscountAmount ?c \<le> subtotalWithTax ?c
        \<and> sub64 (subtotalWithTax ?c) (couponDiscountAmount ?c)
            = subtotalWithTax ?c - couponDiscountAmount ?c
        \<and> add64 (sub64 (subtotalWithTax ?c) (couponDiscountAmount ?c)) (shippingFee ?c)
            = (subtotalWithTax ?c - couponDiscountAmount ?c) + shippingFee ?c
        \<and> shippingFee ?c \<le> (subtotalWithTax ?c - couponDiscountAmount ?c) + shippingFee ?c"
  proof
    assume h: "0 \<le> subtotal \<and> subtotal \<le> 2 ^ 61
                 \<and> (\<forall>k. coupon = Some k \<longrightarrow> - (2 ^ 61) \<le> Amount k)"
    then have s0: "0 \<le> subtotal" and s1: "subtotal \<le> 2 ^ 61"
      and k: "\<forall>k. coupon = Some k \<longrightarrow> - (2 ^ 61) \<le> Amount k" by blast+
    note ac = charge_exact_after_coupon[OF s0 s1 k, of rank pts]
    have le: "couponDiscountAmount ?c \<le> subtotalWithTax ?c" by (rule ac(1))
    have sb: "sub64 (subtotalWithTax ?c) (couponDiscountAmount ?c)
                = subtotalWithTax ?c - couponDiscountAmount ?c"
      using ac(2) by (simp only: charge_fields(6))
    have ad: "add64 (sub64 (subtotalWithTax ?c) (couponDiscountAmount ?c)) (shippingFee ?c)
                = (subtotalWithTax ?c - couponDiscountAmount ?c) + shippingFee ?c"
      using ac(4) by (simp only: charge_fields(6) sb)
    have "shippingFee ?c \<le> (subtotalWithTax ?c - couponDiscountAmount ?c) + shippingFee ?c"
      using le by simp
    with le sb ad show "couponDiscountAmount ?c \<le> subtotalWithTax ?c
        \<and> sub64 (subtotalWithTax ?c) (couponDiscountAmount ?c)
            = subtotalWithTax ?c - couponDiscountAmount ?c
        \<and> add64 (sub64 (subtotalWithTax ?c) (couponDiscountAmount ?c)) (shippingFee ?c)
            = (subtotalWithTax ?c - couponDiscountAmount ?c) + shippingFee ?c
        \<and> shippingFee ?c \<le> (subtotalWithTax ?c - couponDiscountAmount ?c) + shippingFee ?c"
      by blast
  qed
  from 1 2 3 4 5 6 show ?thesis by blast
qed

theorem coupon_discount_capped_shipping_untouched_witness:
  "(0::int) \<le> 300 \<and> calculateCouponDiscount (init_coupons ''FLAT1000'') 300 = 300
   \<and> (0::int) \<le> 4000 \<and> (4000::int) \<le> 2 ^ 61
   \<and> couponDiscountAmount (computeCharge ''Normal'' (init_coupons ''FLAT1000'') 4000 0) \<le> 4400
   \<and> shippingFee (computeCharge ''Normal'' (init_coupons ''FLAT1000'') 4000 0) = 500
   \<and> shippingFee (computeCharge ''Normal'' None 4000 0) = 500"
proof -
  have "calculateCouponDiscount (init_coupons ''FLAT1000'') 300 = 300"
    by (simp add: calculateCouponDiscount_def init_coupons_def)
  then show ?thesis
    using coupon_discount_capped_shipping_untouched
      [of 300 "init_coupons ''FLAT1000''" "''Normal''" 4000 0]
    by (simp add: test_cart_charge test_cart_charge_FLAT1000)
qed

subsection \<open>\<^verbatim>\<open>usePoints\<close>\<close>

text \<open>
  C8. For an existing user with balance \<open>b\<close>, \<open>usePoints\<close> returns true exactly when the
  amount is at most \<open>b\<close>. When it returns true the only changes of the store are: the
  balance of that user becomes \<open>b - points\<close>, one history entry of type \<^verbatim>\<open>used\<close> with the
  amount and the new balance is stored under the next history identifier, and that
  identifier advances by one. When it returns false the store is unchanged.
\<close>

theorem usePoints_correct:
  assumes "users st userID = Some user"
  shows "(fst (usePoints st userID orderID points) \<longleftrightarrow> points \<le> CurrentPoints user)
    \<and> (points \<le> CurrentPoints user \<longrightarrow>
         snd (usePoints st userID orderID points) =
           st\<lparr> users := (users st)(userID \<mapsto>
                  user\<lparr> CurrentPoints := CurrentPoints user - points \<rparr>),
               pointHistories := (pointHistories st)(nextPointHistoryID st \<mapsto>
                  \<lparr> hist_ID = nextPointHistoryID st, hist_UserID = userID,
                    hist_OrderID = orderID, hist_Type = ''used'', hist_Amount = points,
                    Balance = CurrentPoints user - points \<rparr>),
               nextPointHistoryID := nextPointHistoryID st + 1 \<rparr>)
    \<and> (\<not> points \<le> CurrentPoints user \<longrightarrow> snd (usePoints st userID orderID points) = st)"
  using assms by (simp add: usePoints_def recordHistory_def Let_def)

theorem usePoints_correct_witness:
  "users points_store 3 = Some points_user
   \<and> (300::int) \<le> CurrentPoints points_user
   \<and> fst (usePoints points_store 3 1 300)
   \<and> map_option CurrentPoints (users (snd (usePoints points_store 3 1 300)) 3) = Some 700
   \<and> map_option Balance (pointHistories (snd (usePoints points_store 3 1 300)) 1) = Some 700
   \<and> \<not> (2000::int) \<le> CurrentPoints points_user
   \<and> \<not> fst (usePoints points_store 3 1 2000)
   \<and> snd (usePoints points_store 3 1 2000) = points_store"
proof -
  have u: "users points_store 3 = Some points_user"
    by (simp add: points_store_def)
  have n: "nextPointHistoryID points_store = 1"
    by (simp add: points_store_def test_store_def)
  have c: "CurrentPoints points_user = 1000"
    by (simp add: points_user_def)
  show ?thesis
    using usePoints_correct[OF u, of 1 300] usePoints_correct[OF u, of 1 2000] u n c
    by simp
qed

subsection \<open>\<^verbatim>\<open>allocateStock\<close>\<close>

lemma commit_loop_closed:
  "commit_loop pid plan stk k =
     map_option (\<lambda>s. s\<lparr> Quantity := Quantity s - drawn pid plan k \<rparr>) (stk k)"
proof (induction plan arbitrary: stk)
  case Nil
  show ?case by (cases "stk k") (simp_all add: drawn_def)
next
  case (Cons e plan)
  obtain w a where e: "e = (w, a)" by (cases e)
  show ?case
    unfolding e
    by (cases "stk (stockKey pid w)"; cases "stk k")
       (auto simp: Cons.IH drawn_def)
qed

lemma commit_loop_order:
  assumes "mset plan1 = mset plan2"
  shows "commit_loop pid plan1 stk = commit_loop pid plan2 stk"
proof -
  have "drawn pid plan1 k = drawn pid plan2 k" for k
  proof -
    let ?f = "\<lambda>(warehouseID, quantity). if stockKey pid warehouseID = k then quantity else (0::int)"
    have "sum_mset (mset (map ?f plan1)) = sum_mset (mset (map ?f plan2))"
      using assms by simp
    then show ?thesis unfolding drawn_def by (simp only: sum_mset_sum_list)
  qed
  then show ?thesis by (intro ext) (simp add: commit_loop_closed)
qed

lemma update_fresh: "k \<notin> fst ` set al \<Longrightarrow> AList.update k v al = al @ [(k, v)]"
  by (induction al) auto

text \<open>The plan loop on stock lines of distinct warehouses, each with a positive quantity.\<close>

lemma allocate_loop_char:
  assumes "distinct (map WarehouseID av)" "\<forall>s \<in> set av. 0 < Quantity s"
    "WarehouseID ` set av \<inter> fst ` set allocs = {}" "0 \<le> r"
  shows "\<exists>plan. allocate_loop av allocs r =
            (allocs @ plan, if r \<le> sum_list (map Quantity av) then 0 else r - sum_list (map Quantity av))
          \<and> sum_list (map snd plan) = min r (sum_list (map Quantity av))
          \<and> distinct (map fst plan)
          \<and> fst ` set plan \<subseteq> WarehouseID ` set av
          \<and> (\<forall>(w, a) \<in> set plan. \<exists>s \<in> set av. WarehouseID s = w \<and> 0 < a \<and> a \<le> Quantity s)"
  using assms
proof (induction av arbitrary: allocs r)
  case Nil
  then show ?case by simp
next
  case (Cons s rest)
  let ?w = "WarehouseID s"
  have qs: "0 < Quantity s" using Cons.prems(2) by simp
  have fresh: "?w \<notin> fst ` set allocs" using Cons.prems(3) by auto
  have tot0: "0 \<le> sum_list (map Quantity rest)"
    using Cons.prems(2) by (intro sum_list_nonneg) auto
  show ?case
  proof (cases "r \<le> 0")
    case True
    then have "r = 0" using Cons.prems(4) by simp
    then show ?thesis using qs tot0 by (intro exI[of _ "[]"]) simp
  next
    case False
    then have rpos: "0 < r" by simp
    show ?thesis
    proof (cases "r \<le> Quantity s")
      case True
      have "allocate_loop rest (allocs @ [(?w, r)]) 0 = (allocs @ [(?w, r)], 0)"
        by (cases rest) simp_all
      then have "allocate_loop (s # rest) allocs r = (allocs @ [(?w, r)], 0)"
        using rpos True fresh by (simp add: update_fresh)
      then show ?thesis
        using True tot0 rpos by (intro exI[of _ "[(?w, r)]"]) auto
    next
      case False
      then have lt: "Quantity s < r" by simp
      let ?allocs' = "allocs @ [(?w, Quantity s)]"
      have step: "allocate_loop (s # rest) allocs r = allocate_loop rest ?allocs' (r - Quantity s)"
        using rpos lt fresh by (simp add: update_fresh)
      have d: "distinct (map WarehouseID rest)" and nw: "?w \<notin> WarehouseID ` set rest"
        using Cons.prems(1) by auto
      have p2: "\<forall>s \<in> set rest. 0 < Quantity s" using Cons.prems(2) by simp
      have p3: "WarehouseID ` set rest \<inter> fst ` set ?allocs' = {}"
        using Cons.prems(3) nw by auto
      have p4: "0 \<le> r - Quantity s" using lt by simp
      from Cons.IH[OF d p2 p3 p4] obtain plan where
        al: "allocate_loop rest ?allocs' (r - Quantity s) =
              (?allocs' @ plan,
               if r - Quantity s \<le> sum_list (map Quantity rest) then 0
               else r - Quantity s - sum_list (map Quantity rest))"
        and sm: "sum_list (map snd plan) = min (r - Quantity s) (sum_list (map Quantity rest))"
        and ds: "distinct (map fst plan)"
        and sb: "fst ` set plan \<subseteq> WarehouseID ` set rest"
        and en: "\<forall>(w, a) \<in> set plan. \<exists>s \<in> set rest. WarehouseID s = w \<and> 0 < a \<and> a \<le> Quantity s"
        by blast
      let ?plan = "(?w, Quantity s) # plan"
      have 1: "allocate_loop (s # rest) allocs r =
            (allocs @ ?plan, if r \<le> sum_list (map Quantity (s # rest)) then 0
                             else r - sum_list (map Quantity (s # rest)))"
        using step al by auto
      have 2: "sum_list (map snd ?plan) = min r (sum_list (map Quantity (s # rest)))"
        using sm by auto
      have 3: "distinct (map fst ?plan)" using ds sb nw by auto
      have 4: "fst ` set ?plan \<subseteq> WarehouseID ` set (s # rest)" using sb by auto
      have 5: "\<forall>(w, a) \<in> set ?plan. \<exists>s' \<in> set (s # rest). WarehouseID s' = w \<and> 0 < a \<and> a \<le> Quantity s'"
        using en qs by auto
      from 1 2 3 4 5 show ?thesis by blast
    qed
  qed
qed

lemma availableStocks_Nil [simp]: "availableStocks stk [] pid = []"
  by (simp add: availableStocks_def)

lemma availableStocks_Cons:
  "availableStocks stk (k # ks) pid =
    (case stk k of
       Some s \<Rightarrow> if ProductID s = pid \<and> 0 < Quantity s then s # availableStocks stk ks pid
                 else availableStocks stk ks pid
     | None \<Rightarrow> availableStocks stk ks pid)"
  by (simp add: availableStocks_def split: option.splits)

lemma availableStocks_set:
  "set (availableStocks stk ks pid)
     = {s. \<exists>k \<in> set ks. stk k = Some s \<and> ProductID s = pid \<and> 0 < Quantity s}"
  by (induction ks) (auto simp: availableStocks_Cons split: option.splits)

lemma availableStocks_lookup:
  assumes "keys_match stk" "s \<in> set (availableStocks stk ks pid)"
  shows "stk (stockKey pid (WarehouseID s)) = Some s" "ProductID s = pid" "0 < Quantity s"
proof -
  from assms(2) obtain k where k: "stk k = Some s" and p: "ProductID s = pid" and q: "0 < Quantity s"
    by (auto simp: availableStocks_set)
  from assms(1) k have "k = stockKey (ProductID s) (WarehouseID s)"
    by (simp add: keys_match_def)
  with k p show "stk (stockKey pid (WarehouseID s)) = Some s" by simp
  show "ProductID s = pid" by (fact p)
  show "0 < Quantity s" by (fact q)
qed

lemma availableStocks_distinct:
  assumes "keys_match stk" "distinct ks"
  shows "distinct (map WarehouseID (availableStocks stk ks pid))"
  using assms(2)
proof (induction ks)
  case Nil
  show ?case by simp
next
  case (Cons k ks)
  then have IH: "distinct (map WarehouseID (availableStocks stk ks pid))" and nk: "k \<notin> set ks"
    by simp_all
  show ?case
  proof (cases "stk k")
    case None
    then show ?thesis using IH by (simp add: availableStocks_Cons)
  next
    case (Some s)
    show ?thesis
    proof (cases "ProductID s = pid \<and> 0 < Quantity s")
      case False
      then show ?thesis using IH Some by (auto simp: availableStocks_Cons)
    next
      case True
      have kk: "k = stockKey pid (WarehouseID s)"
        using assms(1) Some True by (auto simp: keys_match_def)
      have "WarehouseID s \<notin> WarehouseID ` set (availableStocks stk ks pid)"
      proof
        assume "WarehouseID s \<in> WarehouseID ` set (availableStocks stk ks pid)"
        then obtain s' where s': "s' \<in> set (availableStocks stk ks pid)"
          and w: "WarehouseID s' = WarehouseID s" by auto
        from s' obtain k' where k': "k' \<in> set ks" "stk k' = Some s'" "ProductID s' = pid"
          by (auto simp: availableStocks_set)
        from assms(1) k'(2) have "k' = stockKey (ProductID s') (WarehouseID s')"
          by (simp add: keys_match_def)
        then have "k' = k" using k'(3) w kk by simp
        with k'(1) nk show False by simp
      qed
      then show ?thesis using IH Some True by (simp add: availableStocks_Cons)
    qed
  qed
qed

lemma availableStocks_total:
  "sum_list (map Quantity (availableStocks stk ks pid)) = sum_list (map (line_quantity stk pid) ks)"
  by (induction ks) (auto simp: availableStocks_Cons line_quantity_def split: option.splits)

lemma availableStocks_total_order:
  assumes "range_of ks stk" "range_of ks' stk"
  shows "sum_list (map Quantity (availableStocks stk ks pid))
       = sum_list (map Quantity (availableStocks stk ks' pid))"
proof -
  have "mset ks = mset ks'"
    using assms by (simp add: range_of_def set_eq_iff_mset_eq_distinct[symmetric])
  then have "sum_mset (mset (map (line_quantity stk pid) ks))
           = sum_mset (mset (map (line_quantity stk pid) ks'))" by simp
  then show ?thesis by (simp only: availableStocks_total sum_mset_sum_list)
qed

lemma getProductStock_loop_total:
  assumes "warehouses_exist stk whs"
  shows "fst (getProductStock_loop stk whs pid ks (t, d))
       = t + sum_list (map (line_quantity stk pid) ks)"
proof (induction ks arbitrary: t d)
  case Nil
  show ?case by simp
next
  case (Cons k ks)
  show ?case
  proof (cases "stk k")
    case None
    then show ?thesis by (simp add: Cons.IH line_quantity_def)
  next
    case (Some s)
    then have "whs (WarehouseID s) \<noteq> None" using assms by (auto simp: warehouses_exist_def)
    then obtain w where w: "whs (WarehouseID s) = Some w" by auto
    show ?thesis using Some w by (simp add: Cons.IH line_quantity_def)
  qed
qed

lemma getProductStock_total:
  assumes "warehouses_exist stk whs"
  shows "fst (getProductStock stk whs ks pid) = sum_list (map Quantity (availableStocks stk ks pid))"
  by (simp add: getProductStock_def getProductStock_loop_total[OF assms] availableStocks_total)

lemma drawn_outside:
  "k \<notin> stockKey pid ` fst ` set plan \<Longrightarrow> drawn pid plan k = 0"
  by (induction plan) (auto simp: drawn_def)

lemma drawn_single:
  assumes "distinct (map fst plan)" "(w0, a0) \<in> set plan"
    "\<forall>w \<in> fst ` set plan. stockKey pid w = stockKey pid w0 \<longrightarrow> w = w0"
  shows "drawn pid plan (stockKey pid w0) = a0"
  using assms
proof (induction plan)
  case Nil
  then show ?case by simp
next
  case (Cons e plan)
  obtain w a where e: "e = (w, a)" by (cases e)
  have d: "distinct (map fst plan)" and nw: "w \<notin> fst ` set plan"
    using Cons.prems(1) by (auto simp: e)
  have inj: "\<forall>w' \<in> fst ` set plan. stockKey pid w' = stockKey pid w0 \<longrightarrow> w' = w0"
    using Cons.prems(3) by auto
  have cons: "drawn pid (e # plan) k = (if stockKey pid w = k then a else 0) + drawn pid plan k" for k
    by (simp add: drawn_def e)
  show ?case
  proof (cases "w = w0")
    case True
    then have "a = a0"
      using Cons.prems(1,2) by (auto simp: e rev_image_eqI)
    moreover have "stockKey pid w0 \<notin> stockKey pid ` fst ` set plan"
      using inj nw True by auto
    then have "drawn pid plan (stockKey pid w0) = 0" by (rule drawn_outside)
    ultimately show ?thesis using True by (simp add: cons)
  next
    case False
    then have "(w0, a0) \<in> set plan" using Cons.prems(2) by (simp add: e)
    from Cons.IH[OF d this inj] have "drawn pid plan (stockKey pid w0) = a0" .
    moreover have "stockKey pid w \<noteq> stockKey pid w0"
      using Cons.prems(3) False by (auto simp: e)
    ultimately show ?thesis by (simp add: cons)
  qed
qed

lemma allocateStock_insufficient:
  assumes "keys_match stk" "distinct ks" "0 \<le> q"
    and "sum_list (map Quantity (availableStocks stk ks pid)) < q"
  shows "allocateStock stk ks pid q = (None, stk)"
proof -
  let ?av = "availableStocks stk ks pid"
  have 1: "distinct (map WarehouseID ?av)" using assms(1,2) by (rule availableStocks_distinct)
  have 2: "\<forall>s \<in> set ?av. 0 < Quantity s" by (auto simp: availableStocks_set)
  have 3: "WarehouseID ` set ?av \<inter> fst ` set [] = {}" by simp
  from allocate_loop_char[OF 1 2 3 assms(3)] obtain plan where
    "allocate_loop ?av [] q = ([] @ plan, q - sum_list (map Quantity ?av))"
    using assms(4) by auto
  then show ?thesis using assms(4) by (simp add: allocateStock_def)
qed

lemma allocateStock_sufficient:
  assumes km: "keys_match stk" and dk: "distinct ks" and q: "0 \<le> q"
    and enough: "q \<le> sum_list (map Quantity (availableStocks stk ks pid))"
  shows "\<exists>plan stk'. allocateStock stk ks pid q = (Some plan, stk')
      \<and> distinct (map fst plan)
      \<and> sum_list (map snd plan) = q
      \<and> (\<forall>(w, a) \<in> set plan. \<exists>s. stk (stockKey pid w) = Some s
            \<and> ProductID s = pid \<and> WarehouseID s = w \<and> 0 < a \<and> a \<le> Quantity s
            \<and> stk' (stockKey pid w) = Some (s\<lparr> Quantity := Quantity s - a \<rparr>))
      \<and> (\<forall>k. k \<notin> stockKey pid ` fst ` set plan \<longrightarrow> stk' k = stk k)"
proof -
  let ?av = "availableStocks stk ks pid"
  have 1: "distinct (map WarehouseID ?av)" using km dk by (rule availableStocks_distinct)
  have 2: "\<forall>s \<in> set ?av. 0 < Quantity s" by (auto simp: availableStocks_set)
  have 3: "WarehouseID ` set ?av \<inter> fst ` set [] = {}" by simp
  from allocate_loop_char[OF 1 2 3 q] obtain plan where
    al: "allocate_loop ?av [] q = (plan, 0)"
    and sm: "sum_list (map snd plan) = q"
    and ds: "distinct (map fst plan)"
    and en: "\<forall>(w, a) \<in> set plan. \<exists>s \<in> set ?av. WarehouseID s = w \<and> 0 < a \<and> a \<le> Quantity s"
    using enough by auto
  let ?stk' = "commit_loop pid plan stk"
  have res: "allocateStock stk ks pid q = (Some plan, ?stk')"
    using al by (simp add: allocateStock_def)
  have line: "\<exists>s. stk (stockKey pid w) = Some s \<and> ProductID s = pid \<and> WarehouseID s = w
                  \<and> 0 < a \<and> a \<le> Quantity s" if "(w, a) \<in> set plan" for w a
  proof -
    from en that obtain s where s: "s \<in> set ?av" "WarehouseID s = w" "0 < a" "a \<le> Quantity s"
      by auto
    from availableStocks_lookup[OF km s(1)] s show ?thesis by auto
  qed
  have inj: "w = w0" if "w \<in> fst ` set plan" "(w0, a0) \<in> set plan"
    "stockKey pid w = stockKey pid w0" for w w0 a0
  proof -
    from that(1) obtain a where "(w, a) \<in> set plan" by auto
    from line[OF this] obtain s where s: "stk (stockKey pid w) = Some s" "WarehouseID s = w" by auto
    from line[OF that(2)] obtain s0 where s0: "stk (stockKey pid w0) = Some s0" "WarehouseID s0 = w0"
      by auto
    from s s0 that(3) show ?thesis by simp
  qed
  have planned: "\<exists>s. stk (stockKey pid w) = Some s
            \<and> ProductID s = pid \<and> WarehouseID s = w \<and> 0 < a \<and> a \<le> Quantity s
            \<and> ?stk' (stockKey pid w) = Some (s\<lparr> Quantity := Quantity s - a \<rparr>)"
    if wa: "(w, a) \<in> set plan" for w a
  proof -
    from line[OF wa] obtain s where s: "stk (stockKey pid w) = Some s" "ProductID s = pid"
      "WarehouseID s = w" "0 < a" "a \<le> Quantity s" by auto
    have "\<forall>w' \<in> fst ` set plan. stockKey pid w' = stockKey pid w \<longrightarrow> w' = w"
      using inj[OF _ wa] by blast
    with ds wa have "drawn pid plan (stockKey pid w) = a" by (rule drawn_single)
    then have "?stk' (stockKey pid w) = Some (s\<lparr> Quantity := Quantity s - a \<rparr>)"
      using s(1) by (simp add: commit_loop_closed)
    with s show ?thesis by blast
  qed
  have others: "?stk' k = stk k" if "k \<notin> stockKey pid ` fst ` set plan" for k
    using drawn_outside[OF that] by (cases "stk k") (simp_all add: commit_loop_closed)
  from res ds sm planned others show ?thesis by blast
qed

lemma init_stocks_dom: "dom init_stocks = set order_a"
  by (auto simp: init_stocks_def order_a_def)

lemma range_of_order_a: "range_of order_a init_stocks"
  unfolding range_of_def init_stocks_dom by (simp add: order_a_def)

lemma range_of_order_b: "range_of order_b init_stocks"
  unfolding range_of_def init_stocks_dom by (auto simp: order_a_def order_b_def)

lemma fmt_d_digits:
  "fmt_d 1 = ''1''" "fmt_d 2 = ''2''" "fmt_d 3 = ''3''" "fmt_d 4 = ''4''"
  by (simp_all add: fmt_d_def fmt_nat.simps digit_char_def)

lemma keys_match_init_stocks: "keys_match init_stocks"
  unfolding keys_match_def init_stocks_def
  by (auto simp: stockKey_def fmt_d_digits split: if_splits)

lemma warehouses_exist_init: "warehouses_exist init_stocks init_warehouses"
  unfolding warehouses_exist_def init_stocks_def init_warehouses_def
  by (auto split: if_splits)

lemma available_a: "availableStocks init_stocks order_a 1 =
    [\<lparr> ProductID = 1, WarehouseID = 1, Quantity = 5 \<rparr>,
     \<lparr> ProductID = 1, WarehouseID = 2, Quantity = 3 \<rparr>,
     \<lparr> ProductID = 1, WarehouseID = 3, Quantity = 2 \<rparr>]"
  by (simp add: availableStocks_def init_stocks_def order_a_def)

lemma available_b: "availableStocks init_stocks order_b 1 =
    [\<lparr> ProductID = 1, WarehouseID = 3, Quantity = 2 \<rparr>,
     \<lparr> ProductID = 1, WarehouseID = 2, Quantity = 3 \<rparr>,
     \<lparr> ProductID = 1, WarehouseID = 1, Quantity = 5 \<rparr>]"
  by (simp add: availableStocks_def init_stocks_def order_b_def)

lemma plan_a: "fst (allocateStock init_stocks order_a 1 4) = Some [(1, 4)]"
  by (simp add: allocateStock_def available_a)

lemma plan_b: "fst (allocateStock init_stocks order_b 1 4) = Some [(3, 2), (2, 2)]"
  by (simp add: allocateStock_def available_b)

lemma allocateStock_negative:
  assumes "q < 0"
  shows "allocateStock stk ks pid q = (None, stk)"
proof -
  have "allocate_loop av [] q = ([], q)" for av
    using assms by (cases av) simp_all
  then show ?thesis using assms by (simp add: allocateStock_def)
qed

text \<open>
  C1. Let the stock map be well formed (each line under its own key, each warehouse
  known) and let the required quantity be positive. \<open>allocateStock\<close> fails exactly when the
  total available stock of the product, as \<open>getProductStock\<close> computes it, is less than the
  required quantity, and then no stock line changes. Otherwise it returns a plan with one
  entry per warehouse whose quantities sum to exactly the required quantity; each entry
  names an existing line of the product with at least the planned quantity, that line is
  decremented by exactly the planned quantity (so it stays non-negative), and every other
  line is unchanged. This holds for every order in which the two loops visit the map.
\<close>

theorem allocateStock_all_or_nothing:
  assumes "0 < q" "range_of ks stk" "range_of ks' stk" "keys_match stk" "warehouses_exist stk whs"
  shows "(fst (getProductStock stk whs ks' pid) < q \<longleftrightarrow> allocateStock stk ks pid q = (None, stk))
    \<and> (q \<le> fst (getProductStock stk whs ks' pid) \<longrightarrow>
        (\<exists>plan stk'. allocateStock stk ks pid q = (Some plan, stk')
           \<and> distinct (map fst plan)
           \<and> sum_list (map snd plan) = q
           \<and> (\<forall>(w, a) \<in> set plan. \<exists>s. stk (stockKey pid w) = Some s
                 \<and> ProductID s = pid \<and> WarehouseID s = w \<and> 0 < a \<and> a \<le> Quantity s
                 \<and> stk' (stockKey pid w) = Some (s\<lparr> Quantity := Quantity s - a \<rparr>))
           \<and> (\<forall>k. k \<notin> stockKey pid ` fst ` set plan \<longrightarrow> stk' k = stk k)))"
proof -
  let ?total = "sum_list (map Quantity (availableStocks stk ks pid))"
  have dk: "distinct ks" using assms(2) by (simp add: range_of_def)
  have q0: "0 \<le> q" using assms(1) by simp
  have t: "fst (getProductStock stk whs ks' pid) = ?total"
    using getProductStock_total[OF assms(5)] availableStocks_total_order[OF assms(3,2)]
    by simp
  have fail: "allocateStock stk ks pid q = (None, stk)" if "?total < q"
    using assms(4) dk q0 that by (rule allocateStock_insufficient)
  have ok: "\<exists>plan stk'. allocateStock stk ks pid q = (Some plan, stk')
           \<and> distinct (map fst plan)
           \<and> sum_list (map snd plan) = q
           \<and> (\<forall>(w, a) \<in> set plan. \<exists>s. stk (stockKey pid w) = Some s
                 \<and> ProductID s = pid \<and> WarehouseID s = w \<and> 0 < a \<and> a \<le> Quantity s
                 \<and> stk' (stockKey pid w) = Some (s\<lparr> Quantity := Quantity s - a \<rparr>))
           \<and> (\<forall>k. k \<notin> stockKey pid ` fst ` set plan \<longrightarrow> stk' k = stk k)" if "q \<le> ?total"
    using assms(4) dk q0 that by (rule allocateStock_sufficient)
  have iff: "?total < q \<longleftrightarrow> allocateStock stk ks pid q = (None, stk)"
  proof
    assume "?total < q" then show "allocateStock stk ks pid q = (None, stk)" by (rule fail)
  next
    assume n: "allocateStock stk ks pid q = (None, stk)"
    show "?total < q"
    proof (rule ccontr)
      assume "\<not> ?total < q"
      then have "q \<le> ?total" by simp
      from ok[OF this] n show False by auto
    qed
  qed
  show ?thesis unfolding t using iff ok by blast
qed

theorem allocateStock_all_or_nothing_witness:
  "(0::int) < 7
   \<and> fst (getProductStock init_stocks init_warehouses order_b 1) = 10
   \<and> (\<exists>plan stk'. allocateStock init_stocks order_a 1 7 = (Some plan, stk')
          \<and> sum_list (map snd plan) = 7)
   \<and> (0::int) < 11
   \<and> allocateStock init_stocks order_a 1 11 = (None, init_stocks)"
proof -
  have t: "fst (getProductStock init_stocks init_warehouses order_b 1) = 10"
    by (simp add: getProductStock_total[OF warehouses_exist_init] available_b)
  have 7: "(0::int) < 7" and 11: "(0::int) < 11" by simp_all
  show ?thesis
    using allocateStock_all_or_nothing[OF 7 range_of_order_a range_of_order_b
        keys_match_init_stocks warehouses_exist_init, of 1]
      allocateStock_all_or_nothing[OF 11 range_of_order_a range_of_order_b
        keys_match_init_stocks warehouses_exist_init, of 1]
    unfolding t by auto
qed

text \<open>
  C7 (as amended). The plan is a function of the stock state and of the order in which
  the \<^verbatim>\<open>range\<close> loop visits the stock map. For any two visiting orders of the same
  well-formed state the two calls agree on success or failure, and the plans of two
  successful calls both draw exactly the required quantity.
\<close>

theorem allocateStock_outcome_independent_of_order:
  assumes "range_of ks1 stk" "range_of ks2 stk" "keys_match stk"
  shows "(fst (allocateStock stk ks1 pid q) = None \<longleftrightarrow> fst (allocateStock stk ks2 pid q) = None)
    \<and> (\<forall>plan1 plan2. fst (allocateStock stk ks1 pid q) = Some plan1
                      \<and> fst (allocateStock stk ks2 pid q) = Some plan2
          \<longrightarrow> sum_list (map snd plan1) = q \<and> sum_list (map snd plan2) = q)"
proof (cases "q < 0")
  case True
  then show ?thesis by (simp add: allocateStock_negative)
next
  case False
  then have q0: "0 \<le> q" by simp
  have d1: "distinct ks1" and d2: "distinct ks2" using assms(1,2) by (simp_all add: range_of_def)
  let ?t1 = "sum_list (map Quantity (availableStocks stk ks1 pid))"
  let ?t2 = "sum_list (map Quantity (availableStocks stk ks2 pid))"
  have tt: "?t1 = ?t2" using assms(1,2) by (rule availableStocks_total_order)
  show ?thesis
  proof (cases "?t1 < q")
    case True
    then have "?t2 < q" using tt by simp
    with True show ?thesis
      using allocateStock_insufficient[OF assms(3) d1 q0] allocateStock_insufficient[OF assms(3) d2 q0]
      by simp
  next
    case False
    then have e1: "q \<le> ?t1" and e2: "q \<le> ?t2" using tt by simp_all
    from allocateStock_sufficient[OF assms(3) d1 q0 e1] obtain p1 s1 where
      1: "allocateStock stk ks1 pid q = (Some p1, s1)" "sum_list (map snd p1) = q" by blast
    from allocateStock_sufficient[OF assms(3) d2 q0 e2] obtain p2 s2 where
      2: "allocateStock stk ks2 pid q = (Some p2, s2)" "sum_list (map snd p2) = q" by blast
    from 1 2 show ?thesis by simp
  qed
qed

theorem allocateStock_outcome_independent_of_order_witness:
  "fst (allocateStock init_stocks order_a 1 4) = Some [(1, 4)]
   \<and> fst (allocateStock init_stocks order_b 1 4) = Some [(3, 2), (2, 2)]
   \<and> sum_list (map snd [(1, 4)]) = (4::int)
   \<and> sum_list (map snd [(3, 2), (2, 2)]) = (4::int)"
  using allocateStock_outcome_independent_of_order
      [OF range_of_order_a range_of_order_b keys_match_init_stocks, of 1 4]
  by (simp add: plan_a plan_b)

text \<open>
  The claim as stated fails, because Go does not fix the order of a \<^verbatim>\<open>range\<close> over a map:
  from the stock of \<^verbatim>\<open>init\<close>, four units of product 1 are drawn from warehouse 1 alone in
  one visiting order, and from warehouses 3 and 2 in another.
\<close>

theorem allocateStock_plan_depends_on_order:
  "range_of order_a init_stocks \<and> range_of order_b init_stocks
   \<and> fst (allocateStock init_stocks order_a 1 4) = Some [(1, 4)]
   \<and> fst (allocateStock init_stocks order_b 1 4) = Some [(3, 2), (2, 2)]
   \<and> map_of [(1::int, 4::int)] 1 = Some 4
   \<and> map_of [(3::int, 2::int), (2, 2)] 1 = None"
  by (simp add: range_of_order_a range_of_order_b plan_a plan_b)

subsection \<open>The handler: rejected requests\<close>

lemma validate_items_error_status:
  "validate_items st rng i items acc = Inl e \<Longrightarrow> http_status e = 400 \<or> http_status e = 404"
  by (induction items arbitrary: i acc)
     (auto simp: Let_def split: if_splits option.splits)

lemma validate_items_bad_item:
  assumes "\<exists>item \<in> set items. item_Quantity item \<le> 0 \<or> products st (item_ProductID item) = None"
  shows "\<exists>e. validate_items st rng i items acc = Inl e"
  using assms
proof (induction items arbitrary: i acc)
  case Nil
  then show ?case by simp
next
  case (Cons item rest)
  show ?case
  proof (cases "item_Quantity item \<le> 0 \<or> products st (item_ProductID item) = None")
    case True
    then show ?thesis by (auto split: option.splits)
  next
    case False
    then have "\<exists>item \<in> set rest. item_Quantity item \<le> 0 \<or> products st (item_ProductID item) = None"
      using Cons.prems by auto
    from Cons.IH[OF this] show ?thesis
      using False by (auto simp: Let_def split: option.splits)
  qed
qed

lemma points_store_fields:
  "products points_store = products test_store"
  "warehouses points_store = init_warehouses"
  "stocks points_store = test_stocks"
  "users points_store = [3 \<mapsto> points_user]"
  "coupons points_store = init_coupons"
  "orders points_store = Map.empty"
  "nextOrderID points_store = 1"
  "nextPointHistoryID points_store = 1"
  by (simp_all add: points_store_def test_store_def)

lemma points_user_fields:
  "user_ID points_user = 3" "CurrentPoints points_user = 1000" "MemberRank points_user = ''Normal''"
  by (simp_all add: points_user_def test_user_def)

lemma test_env_fields:
  "sessionUser (test_env user ok) = Some user"
  "rangeStocks (test_env user ok) = test_range"
  "Success (ProcessPayment (test_env user ok) amount orderID) = ok"
  "Message (ProcessPayment (test_env user False) amount orderID) = ''Test payment failed''"
  by (simp_all add: test_env_def mock_gateway_def)

lemma points_cart_subtotal: "validate_items points_store test_range 0 test_cart 0 = Inr 4000"
  by (simp add: points_store_def test_store_def test_stocks_def test_cart_def test_range_def
      getProductStock_def init_warehouses_def int64_defs)

lemma test_cart_charge_FLAT1000_300:
  "computeCharge ''Normal'' (init_coupons ''FLAT1000'') 4000 300 =
    \<lparr> rankDiscountAmount = 0, discountedSubtotal = 4000, tax = 400, subtotalWithTax = 4400,
      shippingFee = 500, couponDiscountAmount = 1000, afterCouponAmount = 3400,
      afterPointsAmount = 3600, totalPrice = 3600, earnedPoints = 36 \<rparr>"
  by (rule charge_eval)
     (simp_all add: rank_discount_Normal_4000 sdiv_examples calculateCouponDiscount_def
        init_coupons_def int64_defs)

text \<open>
  C6. When the session has a user and the request has an empty cart, or an item with a
  quantity that is not positive, or an item of an unknown product, or a coupon code that is
  not empty and not known, or asks for more points than the balance of the user, the
  handler answers with an error whose HTTP status is a client error (400 or 404) and
  returns the store as it was: no order, no stock change, no change of points.
\<close>

theorem invalid_request_rejected:
  assumes "sessionUser env = Some user"
    and "req_Items req = []
       \<or> (\<exists>item \<in> set (req_Items req). item_Quantity item \<le> 0)
       \<or> (\<exists>item \<in> set (req_Items req). products st (item_ProductID item) = None)
       \<or> (CouponCode req \<noteq> [] \<and> coupons st (CouponCode req) = None)
       \<or> CurrentPoints user < UsePoints req"
  shows "\<exists>e. createOrderHandler env req st = (Inl e, st)
           \<and> 400 \<le> http_status e \<and> http_status e < 500"
proof -
  consider (empty) "req_Items req = []"
    | (neg) "req_Items req \<noteq> []" "UsePoints req < 0"
    | (points) "req_Items req \<noteq> []" "\<not> UsePoints req < 0" "CurrentPoints user < UsePoints req"
    | (coupon) "req_Items req \<noteq> []" "\<not> UsePoints req < 0" "\<not> CurrentPoints user < UsePoints req"
        "CouponCode req \<noteq> []" "coupons st (CouponCode req) = None"
    | (items) "req_Items req \<noteq> []" "\<not> UsePoints req < 0" "\<not> CurrentPoints user < UsePoints req"
        "\<not> (CouponCode req \<noteq> [] \<and> coupons st (CouponCode req) = None)"
        "\<exists>item \<in> set (req_Items req).
            item_Quantity item \<le> 0 \<or> products st (item_ProductID item) = None"
    using assms(2) by auto
  then show ?thesis
  proof cases
    case empty
    then show ?thesis using assms(1) by (simp add: createOrderHandler_def)
  next
    case neg
    then show ?thesis using assms(1) by (simp add: createOrderHandler_def)
  next
    case points
    then show ?thesis using assms(1) by (simp add: createOrderHandler_def)
  next
    case coupon
    then show ?thesis using assms(1) by (simp add: createOrderHandler_def)
  next
    case items
    from validate_items_bad_item[OF items(5)] obtain e where
      e: "validate_items st (rangeStocks env) 0 (req_Items req) 0 = Inl e" by blast
    from validate_items_error_status[OF e] have "400 \<le> http_status e \<and> http_status e < 500"
      by auto
    moreover have "createOrderHandler env req st = (Inl e, st)"
      using assms(1) items(1-4) e by (auto simp: createOrderHandler_def Let_def)
    ultimately show ?thesis by blast
  qed
qed

theorem invalid_request_rejected_witness:
  "\<exists>e. createOrderHandler (test_env test_user True) bad_quantity_request test_store
          = (Inl e, test_store)
       \<and> 400 \<le> http_status e \<and> http_status e < 500"
proof -
  have a1: "sessionUser (test_env test_user True) = Some test_user" by (simp add: test_env_fields)
  have a2: "req_Items bad_quantity_request = []
       \<or> (\<exists>item \<in> set (req_Items bad_quantity_request). item_Quantity item \<le> 0)
       \<or> (\<exists>item \<in> set (req_Items bad_quantity_request).
              products test_store (item_ProductID item) = None)
       \<or> (CouponCode bad_quantity_request \<noteq> []
            \<and> coupons test_store (CouponCode bad_quantity_request) = None)
       \<or> CurrentPoints test_user < UsePoints bad_quantity_request"
    by (simp add: bad_quantity_request_def)
  show ?thesis by (rule invalid_request_rejected[OF a1 a2])
qed

subsection \<open>The handler: payment declined\<close>

lemma createOrderHandler_valid:
  assumes "sessionUser env = Some user" "req_Items req \<noteq> []" "0 \<le> UsePoints req"
    "UsePoints req \<le> CurrentPoints user"
    "CouponCode req = [] \<or> coupons st (CouponCode req) \<noteq> None"
    "validate_items st (rangeStocks env) 0 (req_Items req) 0 = Inr subtotal"
  shows "createOrderHandler env req st =
     placeOrder env req st user
       (if CouponCode req \<noteq> [] then coupons st (CouponCode req) else None) subtotal"
  using assms by (auto simp: createOrderHandler_def Let_def)

lemma usePoints_then_rollback:
  assumes "users st userID = Some user" "points \<le> CurrentPoints user"
  shows "usePoints st userID orderID points =
      (True, st\<lparr> users := (users st)(userID \<mapsto>
                     user\<lparr> CurrentPoints := CurrentPoints user - points \<rparr>),
                  pointHistories := (pointHistories st)(nextPointHistoryID st \<mapsto>
                     \<lparr> hist_ID = nextPointHistoryID st, hist_UserID = userID,
                       hist_OrderID = orderID, hist_Type = ''used'', hist_Amount = points,
                       Balance = CurrentPoints user - points \<rparr>),
                  nextPointHistoryID := nextPointHistoryID st + 1 \<rparr>)"
    and "rollbackPoints (snd (usePoints st userID orderID points)) userID orderID points =
      st\<lparr> pointHistories := (pointHistories st)
               (nextPointHistoryID st \<mapsto>
                  \<lparr> hist_ID = nextPointHistoryID st, hist_UserID = userID,
                    hist_OrderID = orderID, hist_Type = ''used'', hist_Amount = points,
                    Balance = CurrentPoints user - points \<rparr>,
                nextPointHistoryID st + 1 \<mapsto>
                  \<lparr> hist_ID = nextPointHistoryID st + 1, hist_UserID = userID,
                    hist_OrderID = orderID, hist_Type = ''rollback'', hist_Amount = points,
                    Balance = CurrentPoints user \<rparr>),
           nextPointHistoryID := nextPointHistoryID st + 2 \<rparr>"
proof -
  show 1: "usePoints st userID orderID points =
      (True, st\<lparr> users := (users st)(userID \<mapsto>
                     user\<lparr> CurrentPoints := CurrentPoints user - points \<rparr>),
                  pointHistories := (pointHistories st)(nextPointHistoryID st \<mapsto>
                     \<lparr> hist_ID = nextPointHistoryID st, hist_UserID = userID,
                       hist_OrderID = orderID, hist_Type = ''used'', hist_Amount = points,
                       Balance = CurrentPoints user - points \<rparr>),
                  nextPointHistoryID := nextPointHistoryID st + 1 \<rparr>)"
    using assms by (simp add: usePoints_def recordHistory_def Let_def)
  have restored: "(users st)(userID \<mapsto> user) = users st"
    using assms(1) by (simp add: map_upd_triv)
  show "rollbackPoints (snd (usePoints st userID orderID points)) userID orderID points =
      st\<lparr> pointHistories := (pointHistories st)
               (nextPointHistoryID st \<mapsto>
                  \<lparr> hist_ID = nextPointHistoryID st, hist_UserID = userID,
                    hist_OrderID = orderID, hist_Type = ''used'', hist_Amount = points,
                    Balance = CurrentPoints user - points \<rparr>,
                nextPointHistoryID st + 1 \<mapsto>
                  \<lparr> hist_ID = nextPointHistoryID st + 1, hist_UserID = userID,
                    hist_OrderID = orderID, hist_Type = ''rollback'', hist_Amount = points,
                    Balance = CurrentPoints user \<rparr>),
           nextPointHistoryID := nextPointHistoryID st + 2 \<rparr>"
    unfolding 1 by (simp add: rollbackPoints_def recordHistory_def Let_def restored)
qed

lemma newOrder_fields:
  "order_ID (newOrder orderID user req c) = orderID"
  "order_UserID (newOrder orderID user req c) = user_ID user"
  "Items (newOrder orderID user req c) = req_Items req"
  "TotalPrice (newOrder orderID user req c) = totalPrice c"
  "ShippingFee (newOrder orderID user req c) = shippingFee c"
  "DiscountAmount (newOrder orderID user req c) = couponDiscountAmount c"
  "AppliedCoupon (newOrder orderID user req c) = CouponCode req"
  "EarnedPoints (newOrder orderID user req c) = earnedPoints c"
  "UsedPoints (newOrder orderID user req c) = UsePoints req"
  "RankDiscount (newOrder orderID user req c) = rankDiscountAmount c"
  by (simp_all add: newOrder_def)

lemma placeOrder_payment_failed:
  assumes u: "users st (user_ID user) = Some user"
    and p0: "0 \<le> UsePoints req" and p1: "UsePoints req \<le> CurrentPoints user"
    and c: "c = computeCharge (MemberRank user) coupon subtotal (UsePoints req)"
    and fail: "\<not> Success (ProcessPayment env (totalPrice c) (nextOrderID st))"
  shows "placeOrder env req st user coupon subtotal =
     (Inl (PaymentFailed (Message (ProcessPayment env (totalPrice c) (nextOrderID st)))),
      saveOrder
        (if 0 < UsePoints req
         then rollbackPoints (snd (usePoints st (user_ID user) (nextOrderID st) (UsePoints req)))
                (user_ID user) (nextOrderID st) (UsePoints req)
         else st)
        ((newOrder (nextOrderID st) user req c)\<lparr> Status := ''payment_failed'' \<rparr>))"
proof (cases "0 < UsePoints req")
  case True
  from usePoints_then_rollback(1)[OF u p1, of "nextOrderID st"] obtain st1 where
    up: "usePoints st (user_ID user) (nextOrderID st) (UsePoints req) = (True, st1)" by blast
  show ?thesis
    using True fail unfolding placeOrder_def c[symmetric]
    by (simp add: up Let_def c[symmetric])
next
  case False
  show ?thesis
    using False fail unfolding placeOrder_def c[symmetric]
    by (simp add: Let_def c[symmetric])
qed

text \<open>
  C3. Let a request of a registered user pass the validation and let the gateway decline
  the payment of the computed charge. Then the handler answers with the payment error
  carrying the message of the gateway, and in the store it returns the stock map and the
  user map are those of the start (the balance is back at its value, and when points were
  requested the history holds the \<^verbatim>\<open>used\<close> entry followed by the \<^verbatim>\<open>rollback\<close> entry), and
  one order is stored under the next order identifier with status \<^verbatim>\<open>payment_failed\<close>
  and with the computed total, shipping fee, coupon discount, rank discount, used points
  and earned points.
\<close>

theorem payment_failure_compensated:
  assumes "sessionUser env = Some user" "users st (user_ID user) = Some user"
    "req_Items req \<noteq> []" "0 \<le> UsePoints req" "UsePoints req \<le> CurrentPoints user"
    "CouponCode req = [] \<or> coupons st (CouponCode req) \<noteq> None"
    "validate_items st (rangeStocks env) 0 (req_Items req) 0 = Inr subtotal"
    "c = computeCharge (MemberRank user)
           (if CouponCode req \<noteq> [] then coupons st (CouponCode req) else None)
           subtotal (UsePoints req)"
    "\<not> Success (ProcessPayment env (totalPrice c) (nextOrderID st))"
  shows "\<exists>st' order.
      createOrderHandler env req st =
        (Inl (PaymentFailed (Message (ProcessPayment env (totalPrice c) (nextOrderID st)))), st')
    \<and> stocks st' = stocks st
    \<and> users st' = users st
    \<and> orders st' = (orders st)(nextOrderID st \<mapsto> order)
    \<and> nextOrderID st' = nextOrderID st + 1
    \<and> Status order = ''payment_failed''
    \<and> order_ID order = nextOrderID st
    \<and> order_UserID order = user_ID user
    \<and> Items order = req_Items req
    \<and> TotalPrice order = totalPrice c
    \<and> ShippingFee order = shippingFee c
    \<and> DiscountAmount order = couponDiscountAmount c
    \<and> AppliedCoupon order = CouponCode req
    \<and> RankDiscount order = rankDiscountAmount c
    \<and> UsedPoints order = UsePoints req
    \<and> EarnedPoints order = earnedPoints c
    \<and> pointHistories st' =
        (if 0 < UsePoints req then
           (pointHistories st)
             (nextPointHistoryID st \<mapsto>
                \<lparr> hist_ID = nextPointHistoryID st, hist_UserID = user_ID user,
                  hist_OrderID = nextOrderID st, hist_Type = ''used'',
                  hist_Amount = UsePoints req,
                  Balance = CurrentPoints user - UsePoints req \<rparr>,
              nextPointHistoryID st + 1 \<mapsto>
                \<lparr> hist_ID = nextPointHistoryID st + 1, hist_UserID = user_ID user,
                  hist_OrderID = nextOrderID st, hist_Type = ''rollback'',
                  hist_Amount = UsePoints req, Balance = CurrentPoints user \<rparr>)
         else pointHistories st)"
proof -
  let ?coupon = "if CouponCode req \<noteq> [] then coupons st (CouponCode req) else None"
  let ?order = "(newOrder (nextOrderID st) user req c)\<lparr> Status := ''payment_failed'' \<rparr>"
  let ?st3 = "if 0 < UsePoints req
         then rollbackPoints (snd (usePoints st (user_ID user) (nextOrderID st) (UsePoints req)))
                (user_ID user) (nextOrderID st) (UsePoints req)
         else st"
  have h: "createOrderHandler env req st =
      (Inl (PaymentFailed (Message (ProcessPayment env (totalPrice c) (nextOrderID st)))),
       saveOrder ?st3 ?order)"
    using createOrderHandler_valid[OF assms(1,3,4,5,6,7)]
      placeOrder_payment_failed[OF assms(2,4,5,8,9)]
    by simp
  note rb = usePoints_then_rollback(2)[OF assms(2,5), of "nextOrderID st"]
  have s1: "stocks (saveOrder ?st3 ?order) = stocks st"
    by (simp add: saveOrder_def rb)
  have s2: "users (saveOrder ?st3 ?order) = users st"
    by (simp add: saveOrder_def rb)
  have s3: "orders (saveOrder ?st3 ?order) = (orders st)(nextOrderID st \<mapsto> ?order)"
    by (simp add: saveOrder_def rb newOrder_fields)
  have s4: "nextOrderID (saveOrder ?st3 ?order) = nextOrderID st + 1"
    by (simp add: saveOrder_def rb)
  have s5: "pointHistories (saveOrder ?st3 ?order) =
        (if 0 < UsePoints req then
           (pointHistories st)
             (nextPointHistoryID st \<mapsto>
                \<lparr> hist_ID = nextPointHistoryID st, hist_UserID = user_ID user,
                  hist_OrderID = nextOrderID st, hist_Type = ''used'',
                  hist_Amount = UsePoints req,
                  Balance = CurrentPoints user - UsePoints req \<rparr>,
              nextPointHistoryID st + 1 \<mapsto>
                \<lparr> hist_ID = nextPointHistoryID st + 1, hist_UserID = user_ID user,
                  hist_OrderID = nextOrderID st, hist_Type = ''rollback'',
                  hist_Amount = UsePoints req, Balance = CurrentPoints user \<rparr>)
         else pointHistories st)"
    by (simp add: saveOrder_def rb)
  have f: "Status ?order = ''payment_failed''" "order_ID ?order = nextOrderID st"
    "order_UserID ?order = user_ID user" "Items ?order = req_Items req"
    "TotalPrice ?order = totalPrice c" "ShippingFee ?order = shippingFee c"
    "DiscountAmount ?order = couponDiscountAmount c" "AppliedCoupon ?order = CouponCode req"
    "RankDiscount ?order = rankDiscountAmount c" "UsedPoints ?order = UsePoints req"
    "EarnedPoints ?order = earnedPoints c"
    by (simp_all add: newOrder_fields)
  show ?thesis
    apply (rule exI[of _ "saveOrder ?st3 ?order"])
    apply (rule exI[of _ ?order])
    apply (intro conjI)
    apply (rule h s1 s2 s3 s4 s5 f)+
    done
qed

theorem payment_failure_compensated_witness:
  "\<exists>st' order.
      createOrderHandler (test_env points_user False) coupon_points_request points_store
        = (Inl (PaymentFailed ''Test payment failed''), st')
    \<and> stocks st' = stocks points_store
    \<and> users st' = users points_store
    \<and> orders st' 1 = Some order
    \<and> Status order = ''payment_failed''
    \<and> DiscountAmount order = 1000
    \<and> RankDiscount order = 0
    \<and> UsedPoints order = 300
    \<and> EarnedPoints order = 36
    \<and> TotalPrice order = 3600"
proof -
  let ?env = "test_env points_user False"
  let ?c = "computeCharge ''Normal'' (init_coupons ''FLAT1000'') 4000 300"
  have a1: "sessionUser ?env = Some points_user" by (simp add: test_env_fields)
  have a2: "users points_store (user_ID points_user) = Some points_user"
    by (simp add: points_store_fields points_user_fields)
  have a3: "req_Items coupon_points_request \<noteq> []"
    by (simp add: coupon_points_request_def test_cart_def)
  have a4: "0 \<le> UsePoints coupon_points_request"
    and a5: "UsePoints coupon_points_request \<le> CurrentPoints points_user"
    by (simp_all add: coupon_points_request_def points_user_fields)
  have a6: "CouponCode coupon_points_request = []
            \<or> coupons points_store (CouponCode coupon_points_request) \<noteq> None"
    by (simp add: coupon_points_request_def points_store_fields init_coupons_def)
  have a7: "validate_items points_store (rangeStocks ?env) 0 (req_Items coupon_points_request) 0
              = Inr 4000"
    by (simp add: test_env_fields coupon_points_request_def points_cart_subtotal)
  have a8: "?c = computeCharge (MemberRank points_user)
           (if CouponCode coupon_points_request \<noteq> []
            then coupons points_store (CouponCode coupon_points_request) else None)
           4000 (UsePoints coupon_points_request)"
    by (simp add: coupon_points_request_def points_store_fields points_user_fields)
  have a9: "\<not> Success (ProcessPayment ?env (totalPrice ?c) (nextOrderID points_store))"
    by (simp add: test_env_fields)
  from payment_failure_compensated[OF a1 a2 a3 a4 a5 a6 a7 a8 a9]
  obtain st' order where r:
    "createOrderHandler ?env coupon_points_request points_store =
        (Inl (PaymentFailed (Message (ProcessPayment ?env (totalPrice ?c) (nextOrderID points_store)))), st')"
    "stocks st' = stocks points_store" "users st' = users points_store"
    "orders st' = (orders points_store)(nextOrderID points_store \<mapsto> order)"
    "Status order = ''payment_failed''"
    "DiscountAmount order = couponDiscountAmount ?c"
    "RankDiscount order = rankDiscountAmount ?c"
    "UsedPoints order = UsePoints coupon_points_request"
    "EarnedPoints order = earnedPoints ?c"
    "TotalPrice order = totalPrice ?c"
    by blast
  show ?thesis
    apply (rule exI[of _ st'])
    apply (rule exI[of _ order])
    using r
    apply (simp add: test_env_fields points_store_fields test_cart_charge_FLAT1000_300
        coupon_points_request_def)
    done
qed

subsection \<open>The handler: allocation fails after the payment\<close>

lemma allocate_items_append:
  "allocate_items rng i (pre @ rest) stk =
     (case allocate_items rng i pre stk of
        (True, stk') \<Rightarrow> allocate_items rng (i + length pre) rest stk'
      | (False, stk') \<Rightarrow> (False, stk'))"
  by (induction pre arbitrary: i stk) (auto split: prod.splits option.splits bool.splits)

lemma allocateStock_None:
  "fst (allocateStock stk ks pid q) = None \<Longrightarrow> allocateStock stk ks pid q = (None, stk)"
  by (auto simp: allocateStock_def split: prod.splits if_splits)

lemma allocate_items_fails_at:
  assumes "allocate_items rng i pre stk0 = (True, stk)"
    and "fst (allocateStock stk (rng (i + length pre)) (item_ProductID item) (item_Quantity item)) = None"
  shows "allocate_items rng i (pre @ item # post) stk0 = (False, stk)"
  using assms(1) allocateStock_None[OF assms(2)] by (simp add: allocate_items_append)

lemma placeOrder_allocation_failed:
  assumes u: "users st (user_ID user) = Some user"
    and p0: "0 \<le> UsePoints req" and p1: "UsePoints req \<le> CurrentPoints user"
    and c: "c = computeCharge (MemberRank user) coupon subtotal (UsePoints req)"
    and ok: "Success (ProcessPayment env (totalPrice c) (nextOrderID st))"
    and al: "allocate_items (rangeStocks env) (length (req_Items req)) (req_Items req) (stocks st)
               = (False, stk)"
  shows "placeOrder env req st user coupon subtotal =
     (Inl StockAllocationFailed,
      saveOrder
        (if 0 < UsePoints req
         then rollbackPoints
                ((snd (usePoints st (user_ID user) (nextOrderID st) (UsePoints req)))
                   \<lparr> stocks := stk \<rparr>)
                (user_ID user) (nextOrderID st) (UsePoints req)
         else st\<lparr> stocks := stk \<rparr>)
        ((newOrder (nextOrderID st) user req c)\<lparr> Status := ''payment_failed'' \<rparr>))"
proof (cases "0 < UsePoints req")
  case True
  note up = usePoints_then_rollback(1)[OF u p1, of "nextOrderID st"]
  show ?thesis
    using True ok al unfolding placeOrder_def c[symmetric]
    by (simp add: up Let_def c[symmetric])
next
  case False
  show ?thesis
    using False ok al unfolding placeOrder_def c[symmetric]
    by (simp add: Let_def c[symmetric])
qed

lemma rollback_after_stock_change:
  assumes "users st userID = Some user" "points \<le> CurrentPoints user"
  shows "rollbackPoints ((snd (usePoints st userID orderID points))\<lparr> stocks := stk \<rparr>)
            userID orderID points =
      st\<lparr> stocks := stk,
          pointHistories := (pointHistories st)
               (nextPointHistoryID st \<mapsto>
                  \<lparr> hist_ID = nextPointHistoryID st, hist_UserID = userID,
                    hist_OrderID = orderID, hist_Type = ''used'', hist_Amount = points,
                    Balance = CurrentPoints user - points \<rparr>,
                nextPointHistoryID st + 1 \<mapsto>
                  \<lparr> hist_ID = nextPointHistoryID st + 1, hist_UserID = userID,
                    hist_OrderID = orderID, hist_Type = ''rollback'', hist_Amount = points,
                    Balance = CurrentPoints user \<rparr>),
           nextPointHistoryID := nextPointHistoryID st + 2 \<rparr>"
proof -
  have restored: "(users st)(userID \<mapsto> user) = users st"
    using assms(1) by (simp add: map_upd_triv)
  show ?thesis
    unfolding usePoints_then_rollback(1)[OF assms]
    by (simp add: rollbackPoints_def recordHistory_def Let_def restored)
qed

lemma stockKey_200_1: "stockKey 200 1 = ''200-1''"
  by (simp add: stockKey_def fmt_d_def fmt_nat.simps digit_char_def)

lemma twice_six_subtotal:
  "validate_items points_store test_range 0 (req_Items twice_six_request) 0 = Inr 12000"
  by (simp add: twice_six_request_def points_store_def test_store_def test_stocks_def
      test_range_def getProductStock_def init_warehouses_def int64_defs)

lemma first_six_allocated:
  "allocate_items test_range 2 [\<lparr> item_ProductID = 200, item_Quantity = 6 \<rparr>] test_stocks
     = (True, stocks_after_six)"
proof -
  have av: "availableStocks test_stocks (test_range 2) 200
              = [\<lparr> ProductID = 200, WarehouseID = 1, Quantity = 10 \<rparr>]"
    by (simp add: availableStocks_def test_stocks_def test_range_def)
  have look: "test_stocks ''200-1'' = Some \<lparr> ProductID = 200, WarehouseID = 1, Quantity = 10 \<rparr>"
    by (simp add: test_stocks_def)
  have "allocateStock test_stocks (test_range 2) 200 6 = (Some [(1, 6)], stocks_after_six)"
    by (simp add: allocateStock_def av stockKey_200_1 look stocks_after_six_def)
  then show ?thesis by simp
qed

lemma second_six_fails:
  "fst (allocateStock stocks_after_six (test_range 3) 200 6) = None"
proof -
  have av: "availableStocks stocks_after_six (test_range 3) 200
              = [\<lparr> ProductID = 200, WarehouseID = 1, Quantity = 4 \<rparr>]"
    by (simp add: availableStocks_def stocks_after_six_def test_stocks_def test_range_def)
  show ?thesis by (simp add: allocateStock_def av)
qed

text \<open>
  C10. Let a request of a registered user pass the validation and let the payment succeed.
  When the items are \<open>pre @ item # post\<close>, the allocations of \<open>pre\<close> succeed one after the
  other and lead from the stock map of the store to \<open>stk\<close>, and the allocation of \<open>item\<close>
  fails on \<open>stk\<close>, then the handler answers with the allocation error, stores the order
  with status \<^verbatim>\<open>payment_failed\<close>, restores the user map (rolling back the points that were
  used), and the stock map it returns is \<open>stk\<close>: the decrements of the items of \<open>pre\<close> are
  kept.
\<close>

theorem allocation_failure_keeps_earlier_decrements:
  assumes "sessionUser env = Some user" "users st (user_ID user) = Some user"
    "req_Items req \<noteq> []" "0 \<le> UsePoints req" "UsePoints req \<le> CurrentPoints user"
    "CouponCode req = [] \<or> coupons st (CouponCode req) \<noteq> None"
    "validate_items st (rangeStocks env) 0 (req_Items req) 0 = Inr subtotal"
    "c = computeCharge (MemberRank user)
           (if CouponCode req \<noteq> [] then coupons st (CouponCode req) else None)
           subtotal (UsePoints req)"
    "Success (ProcessPayment env (totalPrice c) (nextOrderID st))"
    "req_Items req = pre @ item # post"
    "allocate_items (rangeStocks env) (length (req_Items req)) pre (stocks st) = (True, stk)"
    "fst (allocateStock stk (rangeStocks env (length (req_Items req) + length pre))
            (item_ProductID item) (item_Quantity item)) = None"
  shows "\<exists>st' order.
      createOrderHandler env req st = (Inl StockAllocationFailed, st')
    \<and> stocks st' = stk
    \<and> users st' = users st
    \<and> orders st' = (orders st)(nextOrderID st \<mapsto> order)
    \<and> nextOrderID st' = nextOrderID st + 1
    \<and> Status order = ''payment_failed''
    \<and> order_ID order = nextOrderID st
    \<and> UsedPoints order = UsePoints req
    \<and> pointHistories st' =
        (if 0 < UsePoints req then
           (pointHistories st)
             (nextPointHistoryID st \<mapsto>
                \<lparr> hist_ID = nextPointHistoryID st, hist_UserID = user_ID user,
                  hist_OrderID = nextOrderID st, hist_Type = ''used'',
                  hist_Amount = UsePoints req,
                  Balance = CurrentPoints user - UsePoints req \<rparr>,
              nextPointHistoryID st + 1 \<mapsto>
                \<lparr> hist_ID = nextPointHistoryID st + 1, hist_UserID = user_ID user,
                  hist_OrderID = nextOrderID st, hist_Type = ''rollback'',
                  hist_Amount = UsePoints req, Balance = CurrentPoints user \<rparr>)
         else pointHistories st)"
proof -
  let ?order = "(newOrder (nextOrderID st) user req c)\<lparr> Status := ''payment_failed'' \<rparr>"
  let ?st3 = "if 0 < UsePoints req
         then rollbackPoints
                ((snd (usePoints st (user_ID user) (nextOrderID st) (UsePoints req)))
                   \<lparr> stocks := stk \<rparr>)
                (user_ID user) (nextOrderID st) (UsePoints req)
         else st\<lparr> stocks := stk \<rparr>"
  have al: "allocate_items (rangeStocks env) (length (req_Items req)) (req_Items req) (stocks st)
               = (False, stk)"
    using allocate_items_fails_at[OF assms(11,12), of post] assms(10) by simp
  have h: "createOrderHandler env req st = (Inl StockAllocationFailed, saveOrder ?st3 ?order)"
    using createOrderHandler_valid[OF assms(1,3,4,5,6,7)]
      placeOrder_allocation_failed[OF assms(2,4,5,8,9) al]
    by simp
  note rb = rollback_after_stock_change[OF assms(2,5), where orderID = "nextOrderID st" and stk = stk]
  have s1: "stocks (saveOrder ?st3 ?order) = stk"
    by (simp add: saveOrder_def rb)
  have s2: "users (saveOrder ?st3 ?order) = users st"
    by (simp add: saveOrder_def rb)
  have s3: "orders (saveOrder ?st3 ?order) = (orders st)(nextOrderID st \<mapsto> ?order)"
    by (simp add: saveOrder_def rb newOrder_fields)
  have s4: "nextOrderID (saveOrder ?st3 ?order) = nextOrderID st + 1"
    by (simp add: saveOrder_def rb)
  have s5: "pointHistories (saveOrder ?st3 ?order) =
        (if 0 < UsePoints req then
           (pointHistories st)
             (nextPointHistoryID st \<mapsto>
                \<lparr> hist_ID = nextPointHistoryID st, hist_UserID = user_ID user,
                  hist_OrderID = nextOrderID st, hist_Type = ''used'',
                  hist_Amount = UsePoints req,
                  Balance = CurrentPoints user - UsePoints req \<rparr>,
              nextPointHistoryID st + 1 \<mapsto>
                \<lparr> hist_ID = nextPointHistoryID st + 1, hist_UserID = user_ID user,
                  hist_OrderID = nextOrderID st, hist_Type = ''rollback'',
                  hist_Amount = UsePoints req, Balance = CurrentPoints user \<rparr>)
         else pointHistories st)"
    by (simp add: saveOrder_def rb)
  have f: "Status ?order = ''payment_failed''" "order_ID ?order = nextOrderID st"
    "UsedPoints ?order = UsePoints req"
    by (simp_all add: newOrder_fields)
  show ?thesis
    apply (rule exI[of _ "saveOrder ?st3 ?order"])
    apply (rule exI[of _ ?order])
    apply (intro conjI)
    apply (rule h s1 s2 s3 s4 s5 f)+
    done
qed

theorem allocation_failure_keeps_earlier_decrements_witness:
  "\<exists>st' order.
      createOrderHandler (test_env points_user True) twice_six_request points_store
        = (Inl StockAllocationFailed, st')
    \<and> map_option Quantity (stocks points_store ''200-1'') = Some 10
    \<and> map_option Quantity (stocks st' ''200-1'') = Some 4
    \<and> users st' = users points_store
    \<and> orders st' 1 = Some order
    \<and> Status order = ''payment_failed''
    \<and> UsedPoints order = 300"
proof -
  let ?env = "test_env points_user True"
  let ?req = twice_six_request
  let ?item = "\<lparr> item_ProductID = 200, item_Quantity = 6 \<rparr>"
  let ?c = "computeCharge (MemberRank points_user)
           (if CouponCode ?req \<noteq> [] then coupons points_store (CouponCode ?req) else None)
           12000 (UsePoints ?req)"
  have a1: "sessionUser ?env = Some points_user" by (simp add: test_env_fields)
  have a2: "users points_store (user_ID points_user) = Some points_user"
    by (simp add: points_store_fields points_user_fields)
  have a3: "req_Items ?req \<noteq> []" by (simp add: twice_six_request_def)
  have a4: "0 \<le> UsePoints ?req" and a5: "UsePoints ?req \<le> CurrentPoints points_user"
    by (simp_all add: twice_six_request_def points_user_fields)
  have a6: "CouponCode ?req = [] \<or> coupons points_store (CouponCode ?req) \<noteq> None"
    by (simp add: twice_six_request_def)
  have a7: "validate_items points_store (rangeStocks ?env) 0 (req_Items ?req) 0 = Inr 12000"
    by (simp add: test_env_fields twice_six_subtotal)
  have a8: "?c = ?c" by (rule refl)
  have a9: "Success (ProcessPayment ?env (totalPrice ?c) (nextOrderID points_store))"
    by (simp add: test_env_fields)
  have a10: "req_Items ?req = [?item] @ ?item # []" by (simp add: twice_six_request_def)
  have len: "length (req_Items ?req) = 2" by (simp add: twice_six_request_def)
  have a11: "allocate_items (rangeStocks ?env) (length (req_Items ?req)) [?item]
               (stocks points_store) = (True, stocks_after_six)"
    by (simp only: test_env_fields len points_store_fields first_six_allocated)
  have a12: "fst (allocateStock stocks_after_six
                    (rangeStocks ?env (length (req_Items ?req) + length [?item]))
                    (item_ProductID ?item) (item_Quantity ?item)) = None"
    using second_six_fails by (simp add: test_env_fields len)
  from allocation_failure_keeps_earlier_decrements
         [OF a1 a2 a3 a4 a5 a6 a7 a8 a9 a10 a11 a12]
  obtain st' order where r:
    "createOrderHandler ?env ?req points_store = (Inl StockAllocationFailed, st')"
    "stocks st' = stocks_after_six" "users st' = users points_store"
    "orders st' = (orders points_store)(nextOrderID points_store \<mapsto> order)"
    "Status order = ''payment_failed''"
    "UsedPoints order = UsePoints ?req"
    by blast
  show ?thesis
    apply (rule exI[of _ st'])
    apply (rule exI[of _ order])
    using r
    apply (simp add: points_store_fields stocks_after_six_def test_stocks_def twice_six_request_def)
    done
qed

end
